theory Spec2Isabelle
  imports Main "HOL-Library.Word"
begin

section \<open>Python values\<close>

text \<open>
  The functions of \<^verbatim>\<open>streamlit_app.py\<close> work on whatever \<^verbatim>\<open>json.loads\<close> returned:
  \<^verbatim>\<open>None\<close>, booleans, integers, floats, strings, lists and dictionaries with string keys.
  A dictionary is an association list in insertion order (Python dictionaries keep it, and
  \<^verbatim>\<open>items()\<close> lists them so); \<^verbatim>\<open>json.loads\<close> never produces a repeated key.

  A float is its IEEE-754 binary64 bit pattern. Whether a float is zero is decided on the
  bits; the other float operations the code can reach (addition, conversion from and to
  \<^verbatim>\<open>int\<close>, \<^verbatim>\<open>str\<close>) are not embedded: the functions take them as the parameter
  \<open>fo\<close>, and every theorem holds for any choice of them.

  Text is the ASCII repertoire, one \<^typ>\<open>char\<close> per character. Values of \<^typ>\<open>char\<close>
  from 128 on stand for no Python character here; the character functions below leave
  them alone and count them as symbols.
\<close>

type_synonym pyfloat = "64 word"

datatype py_error = TypeError | AttributeError | ValueError | OverflowError

record float_ops =
  fadd :: "pyfloat \<Rightarrow> pyfloat \<Rightarrow> pyfloat"
  f_of_int :: "int \<Rightarrow> pyfloat option"
  f_to_int :: "pyfloat \<Rightarrow> py_error + int"
  fstr :: "pyfloat \<Rightarrow> string"

datatype json =
    JNull
  | JBool bool
  | JInt int
  | JFloat pyfloat
  | JStr string
  | JList "json list"
  | JDict "(string \<times> json) list"

definition float_truthy :: "pyfloat \<Rightarrow> bool" where
  "float_truthy w = (w \<noteq> 0 \<and> w \<noteq> 0x8000000000000000)"

fun py_truthy :: "json \<Rightarrow> bool" where
  "py_truthy JNull = False"
| "py_truthy (JBool b) = b"
| "py_truthy (JInt i) = (i \<noteq> 0)"
| "py_truthy (JFloat w) = float_truthy w"
| "py_truthy (JStr s) = (s \<noteq> [])"
| "py_truthy (JList xs) = (xs \<noteq> [])"
| "py_truthy (JDict kvs) = (kvs \<noteq> [])"

definition py_or :: "json \<Rightarrow> json \<Rightarrow> json" where
  "py_or a b = (if py_truthy a then a else b)"

fun is_dict :: "json \<Rightarrow> bool" where
  "is_dict (JDict kvs) = True"
| "is_dict v = False"

definition dict_get :: "(string \<times> json) list \<Rightarrow> string \<Rightarrow> json \<Rightarrow> json" where
  "dict_get kvs k d = (case map_of kvs k of Some v \<Rightarrow> v | None \<Rightarrow> d)"

subsection \<open>Characters and strings\<close>

definition is_upper :: "char \<Rightarrow> bool" where
  "is_upper c = (65 \<le> (of_char c :: nat) \<and> (of_char c :: nat) \<le> 90)"

definition is_lower :: "char \<Rightarrow> bool" where
  "is_lower c = (97 \<le> (of_char c :: nat) \<and> (of_char c :: nat) \<le> 122)"

definition is_digit :: "char \<Rightarrow> bool" where
  "is_digit c = (48 \<le> (of_char c :: nat) \<and> (of_char c :: nat) \<le> 57)"

text \<open>The class \<^verbatim>\<open>\w\<close> of \<^verbatim>\<open>re\<close>: letters, digits and the underscore.\<close>

definition is_word :: "char \<Rightarrow> bool" where
  "is_word c = (is_lower c \<or> is_upper c \<or> is_digit c \<or> c = CHR ''_'')"

text \<open>What \<^verbatim>\<open>str.strip()\<close> removes: the characters with \<^verbatim>\<open>isspace()\<close>, which in ASCII
  are 9 to 13, 28 to 31 and the space.\<close>

definition is_space :: "char \<Rightarrow> bool" where
  "is_space c = (let n = (of_char c :: nat) in (9 \<le> n \<and> n \<le> 13) \<or> (28 \<le> n \<and> n \<le> 32))"

definition lower_char :: "char \<Rightarrow> char" where
  "lower_char c = (if is_upper c then char_of (of_char c + (32::nat)) else c)"

definition upper_char :: "char \<Rightarrow> char" where
  "upper_char c = (if is_lower c then char_of (of_char c - (32::nat)) else c)"

definition py_lower :: "string \<Rightarrow> string" where
  "py_lower s = map lower_char s"

definition py_strip :: "string \<Rightarrow> string" where
  "py_strip s = rev (dropWhile is_space (rev (dropWhile is_space s)))"

text \<open>\<^verbatim>\<open>s.replace("_", " ")\<close>.\<close>

definition unscore :: "string \<Rightarrow> string" where
  "unscore s = map (\<lambda>c. if c = CHR ''_'' then CHR '' '' else c) s"

text \<open>\<^verbatim>\<open>str.title()\<close>: a cased character that follows an uncased one (or starts the string)
  is put in upper case, a cased character that follows a cased one in lower case. The
  flag is CPython's \<^verbatim>\<open>previous_is_cased\<close>.\<close>

fun title_from :: "bool \<Rightarrow> string \<Rightarrow> string" where
  "title_from prev [] = []"
| "title_from prev (c # cs) =
     (if is_lower c then (if prev then c else upper_char c) # title_from True cs
      else if is_upper c then (if prev then lower_char c else c) # title_from True cs
      else c # title_from False cs)"

definition py_title :: "string \<Rightarrow> string" where
  "py_title s = title_from False s"

text \<open>\<^verbatim>\<open>sub in s\<close> on strings.\<close>

fun py_contains :: "string \<Rightarrow> string \<Rightarrow> bool" where
  "py_contains sub [] = (sub = [])"
| "py_contains sub (c # cs) = (take (length sub) (c # cs) = sub \<or> py_contains sub cs)"

subsection \<open>\<^verbatim>\<open>str()\<close> and \<^verbatim>\<open>repr()\<close>\<close>

fun nat_digits :: "nat \<Rightarrow> string" where
  "nat_digits n =
     (if n < 10 then [char_of (48 + n)] else nat_digits (n div 10) @ [char_of (48 + n mod 10)])"

declare nat_digits.simps [simp del]

definition int_str :: "int \<Rightarrow> string" where
  "int_str i = (if i < 0 then CHR ''-'' # nat_digits (nat (- i)) else nat_digits (nat i))"

definition hex_digit :: "nat \<Rightarrow> char" where
  "hex_digit n = (if n < 10 then char_of (48 + n) else char_of (87 + n))"

text \<open>\<^verbatim>\<open>repr\<close> of a string: single quotes, unless the string holds a single quote and no
  double quote; the quote and the backslash are escaped, as are the control characters.\<close>

definition repr_char :: "char \<Rightarrow> char \<Rightarrow> string" where
  "repr_char q c =
     (if c = q \<or> c = CHR 0x5C then [CHR 0x5C, c]
      else if c = CHR 0x09 then [CHR 0x5C, CHR ''t'']
      else if c = CHR 0x0A then [CHR 0x5C, CHR ''n'']
      else if c = CHR 0x0D then [CHR 0x5C, CHR ''r'']
      else if (of_char c :: nat) < 32 \<or> (of_char c :: nat) = 127
        then [CHR 0x5C, CHR ''x'', hex_digit (of_char c div 16), hex_digit (of_char c mod 16)]
      else [c])"

definition repr_str :: "string \<Rightarrow> string" where
  "repr_str s =
     (let q = (if CHR 0x27 \<in> set s \<and> CHR 0x22 \<notin> set s then CHR 0x22 else CHR 0x27)
      in q # concat (map (repr_char q) s) @ [q])"

fun py_join :: "string \<Rightarrow> string list \<Rightarrow> string" where
  "py_join sep [] = []"
| "py_join sep [x] = x"
| "py_join sep (x # y # ys) = x @ sep @ py_join sep (y # ys)"

fun py_repr :: "float_ops \<Rightarrow> json \<Rightarrow> string" where
  "py_repr fo JNull = ''None''"
| "py_repr fo (JBool b) = (if b then ''True'' else ''False'')"
| "py_repr fo (JInt i) = int_str i"
| "py_repr fo (JFloat w) = fstr fo w"
| "py_repr fo (JStr s) = repr_str s"
| "py_repr fo (JList xs) = ''['' @ py_join '', '' (map (py_repr fo) xs) @ '']''"
| "py_repr fo (JDict kvs) =
     ''{'' @ py_join '', '' (map (\<lambda>kv. repr_str (fst kv) @ '': '' @ py_repr fo (snd kv)) kvs) @ ''}''"

definition py_str :: "float_ops \<Rightarrow> json \<Rightarrow> string" where
  "py_str fo v = (case v of JStr s \<Rightarrow> s | _ \<Rightarrow> py_repr fo v)"

text \<open>\<^verbatim>\<open>for t in v\<close>: a list gives its elements, a string its characters, a dictionary its
  keys; anything else is not iterable.\<close>

fun py_iter :: "json \<Rightarrow> py_error + json list" where
  "py_iter (JList xs) = Inr xs"
| "py_iter (JStr s) = Inr (map (\<lambda>c. JStr [c]) s)"
| "py_iter (JDict kvs) = Inr (map (\<lambda>kv. JStr (fst kv)) kvs)"
| "py_iter v = Inl TypeError"

text \<open>A list comprehension \<^verbatim>\<open>[r for r in xs if p(r)]\<close> whose condition may raise: the first
  exception ends it.\<close>

fun filter_err :: "('a \<Rightarrow> py_error + bool) \<Rightarrow> 'a list \<Rightarrow> py_error + 'a list" where
  "filter_err p [] = Inr []"
| "filter_err p (x # xs) =
     (case p x of
        Inl e \<Rightarrow> Inl e
      | Inr b \<Rightarrow> (case filter_err p xs of
                    Inl e \<Rightarrow> Inl e
                  | Inr ys \<Rightarrow> Inr (if b then x # ys else ys)))"

section \<open>The record filter\<close>

text \<open>
  \<^verbatim>\<open>_filter_responses(responses, sentiment_filter, theme_filter)\<close>. A filter argument is
  \<open>None\<close> for Python's \<^verbatim>\<open>None\<close>. The sentiment condition cannot raise; the theme
  condition iterates over \<^verbatim>\<open>r.get("ai_themes") or []\<close> and raises \<^verbatim>\<open>TypeError\<close> when
  that is a number or \<^verbatim>\<open>True\<close>.
\<close>

definition filter_active :: "string option \<Rightarrow> bool" where
  "filter_active f = (case f of None \<Rightarrow> False | Some s \<Rightarrow> s \<noteq> [] \<and> py_strip s \<noteq> [])"

definition sentiment_cond :: "float_ops \<Rightarrow> string \<Rightarrow> json \<Rightarrow> bool" where
  "sentiment_cond fo sent r =
     (case r of
        JDict kvs \<Rightarrow> py_lower (py_str fo (dict_get kvs ''ai_sentiment'' (JStr ''''))) = sent
      | _ \<Rightarrow> False)"

definition theme_cond :: "float_ops \<Rightarrow> string \<Rightarrow> json \<Rightarrow> py_error + bool" where
  "theme_cond fo theme_key r =
     (case r of
        JDict kvs \<Rightarrow>
          (case py_iter (py_or (dict_get kvs ''ai_themes'' JNull) (JList [])) of
             Inl e \<Rightarrow> Inl e
           | Inr ts \<Rightarrow> Inr (theme_key \<in> set (map (\<lambda>t. py_lower (py_str fo t)) ts)))
      | _ \<Rightarrow> Inr False)"

definition filter_responses ::
  "float_ops \<Rightarrow> json list \<Rightarrow> string option \<Rightarrow> string option \<Rightarrow> py_error + json list" where
  "filter_responses fo responses sentiment_filter theme_filter =
     (if responses = [] then Inr []
      else
        let filtered =
              (if filter_active sentiment_filter
               then filter (sentiment_cond fo (py_lower (py_strip (the sentiment_filter)))) responses
               else responses)
        in if filter_active theme_filter
           then filter_err (theme_cond fo (py_lower (py_strip (the theme_filter)))) filtered
           else Inr filtered)"

section \<open>Keyword extraction\<close>

definition STOPWORDS :: "string list" where
  "STOPWORDS =
     [''a'', ''an'', ''the'', ''and'', ''or'', ''but'', ''in'', ''on'', ''at'', ''to'', ''for'', ''of'', ''with'',
      ''by'', ''from'', ''as'', ''is'', ''was'', ''are'', ''were'', ''been'', ''be'', ''have'', ''has'', ''had'',
      ''do'', ''does'', ''did'', ''will'', ''would'', ''could'', ''should'', ''may'', ''might'', ''must'',
      ''can'', ''this'', ''that'', ''these'', ''those'', ''i'', ''you'', ''he'', ''she'', ''it'', ''we'', ''they'',
      ''my'', ''your'', ''his'', ''her'', ''its'', ''our'', ''their'', ''me'', ''him'', ''us'', ''them'',
      ''so'', ''if'', ''than'', ''when'', ''while'', ''where'', ''because'', ''just'', ''very'', ''also'']"

text \<open>
  \<^verbatim>\<open>_get_review_text\<close>: a string field that is not blank is taken as it is; of a list
  field, \<^verbatim>\<open>str\<close> of each truthy element; the parts are joined with one space.
\<close>

definition field_parts :: "float_ops \<Rightarrow> json \<Rightarrow> string list" where
  "field_parts fo val =
     (case val of
        JStr s \<Rightarrow> (if py_strip s \<noteq> [] then [s] else [])
      | JList xs \<Rightarrow> map (py_str fo) (filter py_truthy xs)
      | _ \<Rightarrow> [])"

definition get_review_text :: "float_ops \<Rightarrow> (string \<times> json) list \<Rightarrow> string" where
  "get_review_text fo r =
     py_join '' ''
       (concat (map (\<lambda>key. field_parts fo (dict_get r key JNull))
          [''summary'', ''content_clean'', ''headline'', ''full_title'', ''personalized_response'']))"

text \<open>
  \<^verbatim>\<open>re.findall(r"\b[a-z]{3,}\b", text)\<close>, as the matcher runs it. \<open>prev\<close> says whether the
  character before the current position is a word character (it is not at the start).
  A match starts where \<open>prev\<close> is false, takes the longest run of \<^verbatim>\<open>[a-z]\<close>, and needs
  three letters and a word boundary after the run; giving letters back cannot help, since
  there is no boundary between two letters. After a match the search goes on behind it,
  otherwise one character further.
\<close>

function scan_tokens :: "bool \<Rightarrow> string \<Rightarrow> string list" where
  "scan_tokens prev [] = []"
| "scan_tokens prev (c # cs) =
     (if \<not> prev \<and> 3 \<le> length (takeWhile is_lower (c # cs))
           \<and> (case dropWhile is_lower (c # cs) of [] \<Rightarrow> True | d # ds \<Rightarrow> \<not> is_word d)
      then takeWhile is_lower (c # cs) # scan_tokens True (dropWhile is_lower (c # cs))
      else scan_tokens (is_word c) cs)"
  by pat_completeness auto
termination
proof (relation "measure (\<lambda>(prev, s). length s)")
  show "wf (measure (\<lambda>(prev, s). length s))" by simp
next
  fix prev :: bool and c :: char and cs :: string
  assume a: "\<not> prev \<and> 3 \<le> length (takeWhile is_lower (c # cs))
       \<and> (case dropWhile is_lower (c # cs) of [] \<Rightarrow> True | d # ds \<Rightarrow> \<not> is_word d)"
  have "length (takeWhile is_lower (c # cs)) + length (dropWhile is_lower (c # cs)) = length (c # cs)"
    by (metis length_append takeWhile_dropWhile_id)
  with a show "((True, dropWhile is_lower (c # cs)), (prev, c # cs)) \<in> measure (\<lambda>(prev, s). length s)"
    by simp
next
  fix prev :: bool and c :: char and cs :: string
  show "((is_word c, cs), (prev, c # cs)) \<in> measure (\<lambda>(prev, s). length s)"
    by simp
qed

definition findall_tokens :: "string \<Rightarrow> string list" where
  "findall_tokens text = scan_tokens False text"

text \<open>\<^verbatim>\<open>Counter(words)\<close> and \<^verbatim>\<open>counts[k] = counts.get(k, 0) + 1\<close>: a new key goes to the
  end, a known key keeps its place.\<close>

definition bump :: "(string \<times> int) list \<Rightarrow> string \<Rightarrow> (string \<times> int) list" where
  "bump counts k =
     (case map_of counts k of
        None \<Rightarrow> counts @ [(k, 1)]
      | Some n \<Rightarrow> map (\<lambda>kv. if fst kv = k then (k, snd kv + 1) else kv) counts)"

definition counter :: "string list \<Rightarrow> (string \<times> int) list" where
  "counter ws = foldl bump [] ws"

text \<open>\<^verbatim>\<open>sorted(items, key=lambda x: -x[1])[:n]\<close>. The sort is stable. \<^verbatim>\<open>most_common(n)\<close> is
  \<^verbatim>\<open>heapq.nlargest(n, items, key=itemgetter(1))\<close>, which the library documents as
  \<^verbatim>\<open>sorted(items, key=itemgetter(1), reverse=True)[:n]\<close>: the same list, since a reversed
  sort keeps equal elements in their order. For \<open>n \<le> 0\<close> both give the empty list.\<close>

definition top_by_count :: "int \<Rightarrow> (string \<times> int) list \<Rightarrow> (string \<times> int) list" where
  "top_by_count n items = take (nat n) (sort_key (\<lambda>kv. - snd kv) items)"

definition record_words :: "float_ops \<Rightarrow> json \<Rightarrow> string list" where
  "record_words fo r =
     (case r of
        JDict kvs \<Rightarrow>
          (let text = get_review_text fo kvs
           in if text = [] then []
              else filter (\<lambda>t. t \<notin> set STOPWORDS) (findall_tokens (py_lower text)))
      | _ \<Rightarrow> [])"

definition extract_keywords_from_reviews ::
  "float_ops \<Rightarrow> json list \<Rightarrow> int \<Rightarrow> (string \<times> int) list" where
  "extract_keywords_from_reviews fo responses top_n =
     top_by_count top_n (counter (foldl (\<lambda>words r. words @ record_words fo r) [] responses))"

text \<open>
  The keyword tab (the block under \<^verbatim>\<open>if st.button("Extract Keywords")\<close>), from the clamping
  of the slider value to the assignment of \<^verbatim>\<open>keywords\<close> in the fallback; the alphabetical
  display order and the drawing come after it. \<open>filtered\<close> is the non-empty list the
  filter returned.
\<close>

definition label_key :: "float_ops \<Rightarrow> json \<Rightarrow> string" where
  "label_key fo t = py_title (unscore (py_str fo t))"

definition tally_labels :: "float_ops \<Rightarrow> (string \<times> int) list \<Rightarrow> json list \<Rightarrow> (string \<times> int) list" where
  "tally_labels fo counts ts =
     foldl (\<lambda>cs t. if py_truthy t then bump cs (label_key fo t) else cs) counts ts"

definition tally_record ::
  "float_ops \<Rightarrow> (string \<times> int) list \<Rightarrow> json \<Rightarrow> py_error + (string \<times> int) list" where
  "tally_record fo counts r =
     (case r of
        JDict kvs \<Rightarrow>
          (case py_iter (py_or (dict_get kvs ''ai_themes'' JNull) (JList [])) of
             Inl e \<Rightarrow> Inl e
           | Inr ts \<Rightarrow>
               (case py_iter (py_or (dict_get kvs ''ai_concerns'' JNull) (JList [])) of
                  Inl e \<Rightarrow> Inl e
                | Inr cs \<Rightarrow> Inr (tally_labels fo (tally_labels fo counts ts) cs)))
      | _ \<Rightarrow> Inr counts)"

fun tally_records ::
  "float_ops \<Rightarrow> (string \<times> int) list \<Rightarrow> json list \<Rightarrow> py_error + (string \<times> int) list" where
  "tally_records fo counts [] = Inr counts"
| "tally_records fo counts (r # rs) =
     (case tally_record fo counts r of
        Inl e \<Rightarrow> Inl e
      | Inr counts' \<Rightarrow> tally_records fo counts' rs)"

definition tab3_keywords :: "float_ops \<Rightarrow> json list \<Rightarrow> int \<Rightarrow> py_error + (string \<times> int) list" where
  "tab3_keywords fo filtered top_kw =
     (let n = max 10 (min 50 top_kw);
          keywords = extract_keywords_from_reviews fo filtered n
      in if keywords = []
         then (case tally_records fo [] filtered of
                 Inl e \<Rightarrow> Inl e
               | Inr theme_counts \<Rightarrow> Inr (top_by_count n theme_counts))
         else Inr keywords)"

section \<open>Chart aggregation\<close>

text \<open>
  \<^verbatim>\<open>build_all_charts\<close> computes the data of four plots and hands them to the plotting
  library. Embedded are the two series that are derived by more than a lookup: the values
  of the pie (\<^verbatim>\<open>pos, neu, neg\<close>, from the three \<^verbatim>\<open>get\<close> calls to the substitution of
  \<^verbatim>\<open>1, 1, 1\<close>) and the labels and values of the source bars (from
  \<^verbatim>\<open>sentiment.get("sourceBreakdown", {})\<close> to the loop that fills \<^verbatim>\<open>labels\<close> and
  \<^verbatim>\<open>values\<close>). The theme and concern bars and the drawing itself are not embedded; each
  function below gives the value its statements compute when they are reached.
\<close>

text \<open>\<^verbatim>\<open>a + b\<close>: booleans count as 0 and 1, an \<^verbatim>\<open>int\<close> joins a float as a float (which
  overflows for a big \<^verbatim>\<open>int\<close>), strings and lists concatenate.\<close>

fun as_int :: "json \<Rightarrow> int option" where
  "as_int (JBool b) = Some (if b then 1 else 0)"
| "as_int (JInt i) = Some i"
| "as_int v = None"

definition int_float_add :: "float_ops \<Rightarrow> int \<Rightarrow> pyfloat \<Rightarrow> bool \<Rightarrow> py_error + json" where
  "int_float_add fo i w int_first =
     (case f_of_int fo i of
        None \<Rightarrow> Inl OverflowError
      | Some v \<Rightarrow> Inr (JFloat (if int_first then fadd fo v w else fadd fo w v)))"

definition py_add :: "float_ops \<Rightarrow> json \<Rightarrow> json \<Rightarrow> py_error + json" where
  "py_add fo a b =
     (case (as_int a, as_int b) of
        (Some i, Some j) \<Rightarrow> Inr (JInt (i + j))
      | (Some i, None) \<Rightarrow> (case b of JFloat w \<Rightarrow> int_float_add fo i w True | _ \<Rightarrow> Inl TypeError)
      | (None, Some j) \<Rightarrow> (case a of JFloat w \<Rightarrow> int_float_add fo j w False | _ \<Rightarrow> Inl TypeError)
      | (None, None) \<Rightarrow>
          (case (a, b) of
             (JFloat v, JFloat w) \<Rightarrow> Inr (JFloat (fadd fo v w))
           | (JStr s, JStr t) \<Rightarrow> Inr (JStr (s @ t))
           | (JList xs, JList ys) \<Rightarrow> Inr (JList (xs @ ys))
           | _ \<Rightarrow> Inl TypeError))"

text \<open>\<^verbatim>\<open>v == 0\<close>.\<close>

fun eq_zero :: "json \<Rightarrow> bool" where
  "eq_zero (JBool b) = (\<not> b)"
| "eq_zero (JInt i) = (i = 0)"
| "eq_zero (JFloat w) = (\<not> float_truthy w)"
| "eq_zero v = False"

definition sentiment_split :: "float_ops \<Rightarrow> json \<Rightarrow> py_error + json \<times> json \<times> json" where
  "sentiment_split fo sentiment =
     (case sentiment of
        JDict kvs \<Rightarrow>
          (let pos = dict_get kvs ''positiveCount'' (JInt 0);
               neu = dict_get kvs ''neutralCount'' (JInt 0);
               neg = dict_get kvs ''negativeCount'' (JInt 0)
           in case py_add fo pos neu of
                Inl e \<Rightarrow> Inl e
              | Inr pn \<Rightarrow>
                  (case py_add fo pn neg of
                     Inl e \<Rightarrow> Inl e
                   | Inr tot \<Rightarrow>
                       Inr (if eq_zero tot then (JInt 1, JInt 1, JInt 1) else (pos, neu, neg))))
      | _ \<Rightarrow> Inl AttributeError)"

text \<open>\<^verbatim>\<open>_derive_source_breakdown\<close>. The result is \<^verbatim>\<open>list(counts.items())\<close>.\<close>

definition derived_name :: "float_ops \<Rightarrow> (string \<times> json) list \<Rightarrow> string" where
  "derived_name fo r =
     (let src = py_or (py_or (dict_get r ''feed_type'' JNull) (dict_get r ''source'' JNull)) (JStr ''Other'')
      in if py_contains ''amazon'' (py_lower (py_str fo src)) then ''Amazon Reviews'' else ''Google News'')"

definition derive_source_breakdown :: "float_ops \<Rightarrow> json list \<Rightarrow> (string \<times> int) list" where
  "derive_source_breakdown fo responses =
     foldl (\<lambda>counts r. case r of JDict kvs \<Rightarrow> bump counts (derived_name fo kvs) | _ \<Rightarrow> counts)
       [] responses"

text \<open>The name given to a source in the loop of \<^verbatim>\<open>build_all_charts\<close>.\<close>

definition source_label :: "float_ops \<Rightarrow> json \<Rightarrow> string" where
  "source_label fo src =
     (let low = py_lower (py_str fo src);
          name = (if py_contains ''amazon'' low then ''Amazon Reviews''
                  else py_title (unscore (py_str fo src)))
      in if py_contains ''google'' low \<or> py_contains ''rss'' low \<or> py_contains ''news'' low
         then ''Google News'' else name)"

text \<open>The value paired with a source. The default of \<^verbatim>\<open>stats.get("total", ...)\<close> is an
  argument, so the sum of the three counts is computed, and can raise, whether
  \<^verbatim>\<open>total\<close> is there or not.\<close>

definition source_value :: "float_ops \<Rightarrow> json \<Rightarrow> py_error + json" where
  "source_value fo stats =
     (case stats of
        JDict kvs \<Rightarrow>
          (case py_add fo (dict_get kvs ''positive'' (JInt 0)) (dict_get kvs ''neutral'' (JInt 0)) of
             Inl e \<Rightarrow> Inl e
           | Inr pn \<Rightarrow>
               (case py_add fo pn (dict_get kvs ''negative'' (JInt 0)) of
                  Inl e \<Rightarrow> Inl e
                | Inr tot \<Rightarrow> Inr (dict_get kvs ''total'' tot)))
      | JBool b \<Rightarrow> Inr (JInt (if b then 1 else 0))
      | JInt i \<Rightarrow> Inr (JInt i)
      | JFloat w \<Rightarrow> (case f_to_int fo w of Inl e \<Rightarrow> Inl e | Inr i \<Rightarrow> Inr (JInt i))
      | _ \<Rightarrow> Inr (JInt 1))"

text \<open>The loop over \<^verbatim>\<open>source_breakdown\<close>. A pair of \<^verbatim>\<open>items()\<close> is a two-element list
  here: the loop treats lists and tuples alike.\<close>

fun source_bars :: "float_ops \<Rightarrow> json list \<Rightarrow> py_error + (string \<times> json) list" where
  "source_bars fo [] = Inr []"
| "source_bars fo (item # items) =
     (case item of
        JList (src # stats # others) \<Rightarrow>
          (case source_value fo stats of
             Inl e \<Rightarrow> Inl e
           | Inr v \<Rightarrow>
               (case source_bars fo items of
                  Inl e \<Rightarrow> Inl e
                | Inr bars \<Rightarrow> Inr ((source_label fo src, v) # bars)))
      | _ \<Rightarrow> source_bars fo items)"

definition items_json :: "(string \<times> json) list \<Rightarrow> json list" where
  "items_json kvs = map (\<lambda>kv. JList [JStr (fst kv), snd kv]) kvs"

definition by_source :: "float_ops \<Rightarrow> json \<Rightarrow> json list \<Rightarrow> py_error + (string \<times> json) list" where
  "by_source fo sentiment responses =
     (case sentiment of
        JDict kvs \<Rightarrow>
          (let sb0 = dict_get kvs ''sourceBreakdown'' (JDict []);
               sb1 = (case sb0 of JDict items \<Rightarrow> JList (take 5 (items_json items)) | _ \<Rightarrow> sb0);
               sb2 = (if \<not> py_truthy sb1 \<and> responses \<noteq> []
                      then JList (items_json (map (\<lambda>kv. (fst kv, JInt (snd kv)))
                                     (derive_source_breakdown fo responses)))
                      else sb1)
           in if py_truthy sb2
              then (case py_iter sb2 of Inl e \<Rightarrow> Inl e | Inr items \<Rightarrow> source_bars fo items)
              else Inr [])
      | _ \<Rightarrow> Inl AttributeError)"

section \<open>Payload normalisation\<close>

text \<open>
  \<^verbatim>\<open>parse_workflow_response\<close> calls \<^verbatim>\<open>setdefault\<close> on a dictionary it found inside its
  argument, so here lists and dictionaries are objects in a store and a value refers to
  them by address. The store is the list of all objects, an address is an index into it,
  and a new object goes to the end. Every list or dictionary display of the source
  (\<^verbatim>\<open>{}\<close>, \<^verbatim>\<open>[]\<close>, \<^verbatim>\<open>[first]\<close>, \<^verbatim>\<open>[responses]\<close>) makes a new object when it is evaluated,
  also as an argument that the callee then does not use.
\<close>

datatype val =
    VNone
  | VBool bool
  | VInt int
  | VFloat pyfloat
  | VStr string
  | VRef nat

datatype obj = OList "val list" | ODict "(string \<times> val) list"

type_synonym heap = "obj list"

definition alloc :: "heap \<Rightarrow> obj \<Rightarrow> heap \<times> val" where
  "alloc h ob = (h @ [ob], VRef (length h))"

text \<open>\<^verbatim>\<open>isinstance(v, dict)\<close> and \<^verbatim>\<open>isinstance(v, list)\<close>, with the contents.\<close>

definition as_dict :: "heap \<Rightarrow> val \<Rightarrow> (string \<times> val) list option" where
  "as_dict h v =
     (case v of
        VRef a \<Rightarrow> (if a < length h then (case h ! a of ODict kvs \<Rightarrow> Some kvs | _ \<Rightarrow> None) else None)
      | _ \<Rightarrow> None)"

definition as_list :: "heap \<Rightarrow> val \<Rightarrow> val list option" where
  "as_list h v =
     (case v of
        VRef a \<Rightarrow> (if a < length h then (case h ! a of OList xs \<Rightarrow> Some xs | _ \<Rightarrow> None) else None)
      | _ \<Rightarrow> None)"

definition val_get :: "(string \<times> val) list \<Rightarrow> string \<Rightarrow> val \<Rightarrow> val" where
  "val_get kvs k d = (case map_of kvs k of Some v \<Rightarrow> v | None \<Rightarrow> d)"

definition has_key :: "(string \<times> val) list \<Rightarrow> string \<Rightarrow> bool" where
  "has_key kvs k = (k \<in> fst ` set kvs)"

text \<open>\<^verbatim>\<open>len(v)\<close>: strings, lists and dictionaries have a length, nothing else has.\<close>

definition py_len :: "heap \<Rightarrow> val \<Rightarrow> py_error + int" where
  "py_len h v =
     (case v of
        VStr s \<Rightarrow> Inr (int (length s))
      | VRef a \<Rightarrow>
          (if a < length h
           then (case h ! a of OList xs \<Rightarrow> Inr (int (length xs)) | ODict kvs \<Rightarrow> Inr (int (length kvs)))
           else Inl TypeError)
      | _ \<Rightarrow> Inl TypeError)"

text \<open>\<^verbatim>\<open>d.setdefault(k, v)\<close> changes the dictionary object in place.\<close>

definition setdefault :: "heap \<Rightarrow> val \<Rightarrow> string \<Rightarrow> val \<Rightarrow> heap" where
  "setdefault h d k v =
     (case d of
        VRef a \<Rightarrow>
          (if a < length h
           then (case h ! a of
                   ODict kvs \<Rightarrow> (if has_key kvs k then h else h[a := ODict (kvs @ [(k, v)])])
                 | _ \<Rightarrow> h)
           else h)
      | _ \<Rightarrow> h)"

text \<open>The first part of the function, up to the two values \<^verbatim>\<open>sentiment\<close> and
  \<^verbatim>\<open>responses\<close> that the rest works on.\<close>

definition extract_fields :: "heap \<Rightarrow> val \<Rightarrow> heap \<times> val \<times> val" where
  "extract_fields h0 data =
     (let (h1, sentiment0) = alloc h0 (ODict []);
          (h2, responses0) = alloc h1 (OList []);
          (h3, sentiment1, responses1) =
            (case as_dict h2 data of
               Some kvs \<Rightarrow>
                 (let (ha, d1) = alloc h2 (ODict []);
                      (hb, d2) = alloc ha (OList [])
                  in (hb, val_get kvs ''sentiment'' d1, val_get kvs ''responses'' d2))
             | None \<Rightarrow> (h2, sentiment0, responses0))
      in case as_list h3 data of
           Some (first # rest) \<Rightarrow>
             (case as_dict h3 first of
                Some fkvs \<Rightarrow>
                  (let (ha, d) = alloc h3 (OList (if has_key fkvs ''headline''
                                                    \<or> has_key fkvs ''personalized_response''
                                                  then [first] else []))
                   in (ha, val_get fkvs ''sentiment'' first, val_get fkvs ''responses'' d))
              | None \<Rightarrow> (h3, sentiment1, responses1))
         | _ \<Rightarrow> (h3, sentiment1, responses1))"

text \<open>The block under \<^verbatim>\<open>if isinstance(sentiment, dict)\<close>. \<^verbatim>\<open>len(responses)\<close> is an argument
  of the first call, so it is computed before anything is changed.\<close>

definition fill_defaults :: "heap \<Rightarrow> val \<Rightarrow> val \<Rightarrow> py_error + heap" where
  "fill_defaults h sentiment responses =
     (case py_len h responses of
        Inl e \<Rightarrow> Inl e
      | Inr n \<Rightarrow>
          (let h1 = setdefault h sentiment ''totalItems'' (VInt n);
               h2 = setdefault h1 sentiment ''positiveCount'' (VInt 0);
               h3 = setdefault h2 sentiment ''neutralCount'' (VInt 0);
               h4 = setdefault h3 sentiment ''negativeCount'' (VInt 0);
               h5 = setdefault h4 sentiment ''positivePercent'' (VInt 0);
               h6 = setdefault h5 sentiment ''neutralPercent'' (VInt 0);
               h7 = setdefault h6 sentiment ''negativePercent'' (VInt 0);
               h8 = setdefault h7 sentiment ''avgScore'' (VFloat 0);
               (h9, e1) = alloc h8 (ODict []);
               h10 = setdefault h9 sentiment ''topThemes'' e1;
               (h11, e2) = alloc h10 (ODict []);
               h12 = setdefault h11 sentiment ''topConcerns'' e2;
               (h13, e3) = alloc h12 (ODict []);
               h14 = setdefault h13 sentiment ''sourceBreakdown'' e3
           in Inr h14))"

text \<open>The last two lines before the \<^verbatim>\<open>return\<close>.\<close>

definition wrap_responses :: "heap \<Rightarrow> val \<Rightarrow> heap \<times> val" where
  "wrap_responses h responses =
     (if as_list h responses \<noteq> None then (h, responses)
      else alloc h (OList (if as_dict h responses \<noteq> None then [responses] else [])))"

definition parse_workflow_response :: "heap \<Rightarrow> val \<Rightarrow> py_error + heap \<times> val \<times> val" where
  "parse_workflow_response h0 data =
     (let (h1, sentiment, responses) = extract_fields h0 data
      in case (if as_dict h1 sentiment \<noteq> None then fill_defaults h1 sentiment responses else Inr h1) of
           Inl e \<Rightarrow> Inl e
         | Inr h2 \<Rightarrow>
             (let (h3, responses') = wrap_responses h2 responses
              in Inr (h3, sentiment, responses')))"

section \<open>Terms of the specification\<close>

text \<open>
  The examples below hold no float, so any float operations serve to evaluate them; these
  are used where a closed term is needed.
\<close>

definition example_ops :: float_ops where
  "example_ops =
     \<lparr>fadd = (\<lambda>a b. a), f_of_int = (\<lambda>i. None), f_to_int = (\<lambda>w. Inl ValueError),
      fstr = (\<lambda>w. ''nan'')\<rparr>"

text \<open>
  The canonical sentiment label of a record is its \<^verbatim>\<open>ai_sentiment\<close> as text in lower
  case; an entry that is no record has none. The theme tokens of a record are the
  elements of its \<^verbatim>\<open>ai_themes\<close>, as text in lower case. The data model makes the themes
  of a record a sequence; \<open>themes_sequence\<close> says that of an entry whose \<^verbatim>\<open>ai_themes\<close>
  is missing, \<^verbatim>\<open>null\<close> or a list.
\<close>

definition sentiment_label :: "float_ops \<Rightarrow> json \<Rightarrow> string option" where
  "sentiment_label fo r =
     (case r of
        JDict kvs \<Rightarrow> Some (py_lower (py_str fo (dict_get kvs ''ai_sentiment'' (JStr ''''))))
      | _ \<Rightarrow> None)"

definition theme_tokens :: "float_ops \<Rightarrow> json \<Rightarrow> string list" where
  "theme_tokens fo r =
     (case r of
        JDict kvs \<Rightarrow>
          (case dict_get kvs ''ai_themes'' JNull of
             JList ts \<Rightarrow> map (\<lambda>t. py_lower (py_str fo t)) ts
           | _ \<Rightarrow> [])
      | _ \<Rightarrow> [])"

definition themes_sequence :: "json \<Rightarrow> bool" where
  "themes_sequence r =
     (case r of
        JDict kvs \<Rightarrow>
          (case dict_get kvs ''ai_themes'' JNull of JNull \<Rightarrow> True | JList ts \<Rightarrow> True | _ \<Rightarrow> False)
      | _ \<Rightarrow> True)"

text \<open>
  The data model makes each count of a summary an integer that is not negative;
  \<open>count_ok\<close> says that of a field that is missing or holds such an integer.
\<close>

definition count_ok :: "(string \<times> json) list \<Rightarrow> string \<Rightarrow> bool" where
  "count_ok kvs k = (case map_of kvs k of None \<Rightarrow> True | Some (JInt i) \<Rightarrow> 0 \<le> i | Some v \<Rightarrow> False)"

text \<open>
  The tally of a list of names: each name once, in the order of first appearance, with the
  number of its occurrences.
\<close>

definition first_seen :: "'a list \<Rightarrow> 'a list" where
  "first_seen xs = rev (remdups (rev xs))"

definition tally :: "string list \<Rightarrow> (string \<times> int) list" where
  "tally ws = map (\<lambda>w. (w, int (count_list ws w))) (first_seen ws)"

text \<open>The source names of the records of a list, one for each entry that is a record.\<close>

definition record_sources :: "float_ops \<Rightarrow> json list \<Rightarrow> string list" where
  "record_sources fo rs = concat (map (\<lambda>r. case r of JDict kvs \<Rightarrow> [derived_name fo kvs] | _ \<Rightarrow> []) rs)"

text \<open>
  The labels of a record: its themes, then its concerns, each as text with underscores
  turned into spaces and in title case; empty labels do not count. \<open>concerns_sequence\<close>
  is to \<^verbatim>\<open>ai_concerns\<close> what \<open>themes_sequence\<close> is to \<^verbatim>\<open>ai_themes\<close>.
\<close>

definition concerns_sequence :: "json \<Rightarrow> bool" where
  "concerns_sequence r =
     (case r of
        JDict kvs \<Rightarrow>
          (case dict_get kvs ''ai_concerns'' JNull of JNull \<Rightarrow> True | JList ts \<Rightarrow> True | _ \<Rightarrow> False)
      | _ \<Rightarrow> True)"

definition labels_of :: "float_ops \<Rightarrow> json \<Rightarrow> string list" where
  "labels_of fo v = (case v of JList ts \<Rightarrow> map (label_key fo) (filter py_truthy ts) | _ \<Rightarrow> [])"

definition record_labels :: "float_ops \<Rightarrow> json \<Rightarrow> string list" where
  "record_labels fo r =
     (case r of
        JDict kvs \<Rightarrow> labels_of fo (dict_get kvs ''ai_themes'' JNull)
                      @ labels_of fo (dict_get kvs ''ai_concerns'' JNull)
      | _ \<Rightarrow> [])"

text \<open>
  The tokens as the specification words them: the text is cut at every character that is
  not a letter, digits included, and the runs of at least three letters are the tokens.
\<close>

definition is_alpha :: "char \<Rightarrow> bool" where
  "is_alpha c = (is_lower c \<or> is_upper c)"

function alpha_runs :: "string \<Rightarrow> string list" where
  "alpha_runs [] = []"
| "alpha_runs (c # cs) =
     (if is_alpha c then takeWhile is_alpha (c # cs) # alpha_runs (dropWhile is_alpha (c # cs))
      else alpha_runs cs)"
  by pat_completeness auto
termination
proof (relation "measure length")
  show "wf (measure length)" by simp
next
  fix c :: char and cs :: string
  assume "is_alpha c"
  then have "length (dropWhile is_alpha (c # cs)) \<le> length cs"
    by (simp add: length_dropWhile_le)
  then show "(dropWhile is_alpha (c # cs), c # cs) \<in> measure length" by simp
next
  fix c :: char and cs :: string
  show "(cs, c # cs) \<in> measure length" by simp
qed

definition spec_tokens :: "string \<Rightarrow> string list" where
  "spec_tokens text = filter (\<lambda>w. 3 \<le> length w) (alpha_runs text)"

text \<open>
  A token as the code finds it: \<open>token_at pre w post s\<close> says that \<open>w\<close> lies in \<open>s\<close>
  between \<open>pre\<close> and \<open>post\<close>, is made of at least three letters \<^verbatim>\<open>a\<close> to \<^verbatim>\<open>z\<close>, and
  is bounded on each side by the end of the text or by a character that is no word
  character: no letter, no digit, no underscore.
\<close>

definition token_at :: "string \<Rightarrow> string \<Rightarrow> string \<Rightarrow> string \<Rightarrow> bool" where
  "token_at pre w post text =
     (text = pre @ w @ post \<and> 3 \<le> length w \<and> list_all is_lower w
      \<and> (pre = [] \<or> \<not> is_word (last pre)) \<and> (post = [] \<or> \<not> is_word (hd post)))"

text \<open>
  The defaults of the summary fields, in the order in which the code sets them; \<open>n\<close> is
  the default of \<^verbatim>\<open>totalItems\<close>, and \<open>t1\<close>, \<open>t2\<close>, \<open>t3\<close> are the three mappings.
  \<open>with_defaults kvs ds\<close> is the mapping \<open>kvs\<close> followed by the entries of \<open>ds\<close> whose
  key it does not have. A value is fresh for a store when it refers to an object that the
  store does not hold yet. \<open>dict_setdefault\<close> is \<^verbatim>\<open>setdefault\<close> on the entries of one
  dictionary.
\<close>

definition summary_defaults :: "int \<Rightarrow> val \<Rightarrow> val \<Rightarrow> val \<Rightarrow> (string \<times> val) list" where
  "summary_defaults n t1 t2 t3 =
     [(''totalItems'', VInt n), (''positiveCount'', VInt 0), (''neutralCount'', VInt 0),
      (''negativeCount'', VInt 0), (''positivePercent'', VInt 0), (''neutralPercent'', VInt 0),
      (''negativePercent'', VInt 0), (''avgScore'', VFloat 0), (''topThemes'', t1),
      (''topConcerns'', t2), (''sourceBreakdown'', t3)]"

definition with_defaults :: "(string \<times> val) list \<Rightarrow> (string \<times> val) list \<Rightarrow> (string \<times> val) list" where
  "with_defaults kvs ds = kvs @ filter (\<lambda>kv. \<not> has_key kvs (fst kv)) ds"

definition fresh :: "heap \<Rightarrow> val \<Rightarrow> bool" where
  "fresh h v = (case v of VRef a \<Rightarrow> length h \<le> a | _ \<Rightarrow> False)"

definition dict_setdefault :: "(string \<times> val) list \<Rightarrow> string \<times> val \<Rightarrow> (string \<times> val) list" where
  "dict_setdefault kvs kv = (if has_key kvs (fst kv) then kvs else kvs @ [kv])"

section \<open>Properties of the record filter\<close>

lemma filter_err_total:
  "\<forall>x\<in>set xs. p x = Inr (q x) \<Longrightarrow> filter_err p xs = Inr (filter q xs)"
  by (induction xs) auto

lemma sentiment_cond_label:
  "sentiment_cond fo sent = (\<lambda>r. sentiment_label fo r = Some sent)"
proof (rule ext)
  fix r show "sentiment_cond fo sent r = (sentiment_label fo r = Some sent)"
    by (cases r) (simp_all add: sentiment_cond_def sentiment_label_def)
qed

lemma theme_cond_tokens:
  "themes_sequence r \<Longrightarrow> theme_cond fo k r = Inr (k \<in> set (theme_tokens fo r))"
  by (cases r)
     (auto simp: theme_cond_def theme_tokens_def themes_sequence_def py_or_def
           split: json.splits)

lemma filter_responses_sentiment_only:
  "filter_active (Some s) \<Longrightarrow> \<not> filter_active t \<Longrightarrow>
   filter_responses fo rs (Some s) t
     = Inr (filter (\<lambda>r. sentiment_label fo r = Some (py_lower (py_strip s))) rs)"
  by (simp add: filter_responses_def sentiment_cond_label)

lemma filter_responses_theme_only:
  "\<not> filter_active s \<Longrightarrow> filter_active (Some t) \<Longrightarrow> \<forall>r\<in>set rs. themes_sequence r \<Longrightarrow>
   filter_responses fo rs s (Some t)
     = Inr (filter (\<lambda>r. py_lower (py_strip t) \<in> set (theme_tokens fo r)) rs)"
  by (simp add: filter_responses_def filter_err_total theme_cond_tokens)

lemma filter_responses_both:
  "filter_active (Some s) \<Longrightarrow> filter_active (Some t) \<Longrightarrow> \<forall>r\<in>set rs. themes_sequence r \<Longrightarrow>
   filter_responses fo rs (Some s) (Some t)
     = Inr (filter (\<lambda>r. sentiment_label fo r = Some (py_lower (py_strip s))
                        \<and> py_lower (py_strip t) \<in> set (theme_tokens fo r)) rs)"
proof -
  assume a: "filter_active (Some s)" "filter_active (Some t)" "\<forall>r\<in>set rs. themes_sequence r"
  let ?ys = "filter (sentiment_cond fo (py_lower (py_strip s))) rs"
  have "\<forall>r\<in>set ?ys. theme_cond fo (py_lower (py_strip t)) r
          = Inr (py_lower (py_strip t) \<in> set (theme_tokens fo r))"
    using a(3) by (simp add: theme_cond_tokens)
  then have "filter_err (theme_cond fo (py_lower (py_strip t))) ?ys
          = Inr (filter (\<lambda>r. py_lower (py_strip t) \<in> set (theme_tokens fo r)) ?ys)"
    by (rule filter_err_total)
  moreover have "filter (\<lambda>r. py_lower (py_strip t) \<in> set (theme_tokens fo r)) ?ys
      = filter (\<lambda>r. sentiment_label fo r = Some (py_lower (py_strip s))
                        \<and> py_lower (py_strip t) \<in> set (theme_tokens fo r)) rs"
    by (simp add: sentiment_cond_label)
  ultimately show ?thesis
    using a(1,2) by (simp add: filter_responses_def)
qed

lemma positive_active: "filter_active (Some ''positive'')"
  by (simp add: filter_active_def py_strip_def is_space_def)

lemma positive_canonical: "py_lower (py_strip ''positive'') = ''positive''"
  by (simp add: py_strip_def is_space_def py_lower_def lower_char_def is_upper_def)

lemma blank_inactive: "\<not> filter_active (Some '''')"
  by (simp add: filter_active_def)

lemma filter_err_kept:
  "filter_err p xs = Inr ys \<Longrightarrow> x \<in> set ys \<Longrightarrow> x \<in> set xs \<and> p x = Inr True"
  by (induction xs arbitrary: ys) (auto split: sum.splits if_splits)

lemma sentiment_cond_dict: "sentiment_cond fo sent r \<Longrightarrow> is_dict r"
  by (cases r) (simp_all add: sentiment_cond_def)

lemma theme_cond_dict: "theme_cond fo k r = Inr True \<Longrightarrow> is_dict r"
  by (cases r) (simp_all add: theme_cond_def)

lemma filter_active_drops:
  assumes "filter_active s \<or> filter_active t" and "filter_responses fo rs s t = Inr ys"
      and "r \<in> set ys"
  shows "is_dict r"
proof (cases "filter_active t")
  case True
  with assms(2,3) obtain zs where "filter_err (theme_cond fo (py_lower (py_strip (the t)))) zs = Inr ys"
    by (auto simp: filter_responses_def Let_def split: if_splits)
  from filter_err_kept [OF this assms(3)] show ?thesis using theme_cond_dict by blast
next
  case False
  with assms(1) have "filter_active s" by simp
  with False assms(2,3) have "sentiment_cond fo (py_lower (py_strip (the s))) r"
    by (auto simp: filter_responses_def Let_def split: if_splits)
  then show ?thesis by (rule sentiment_cond_dict)
qed

text \<open>
  Claim C6, as the code has it: with both filter arguments absent or blank, the filter
  returns its input as it is, the entries that are no records included. Entries that are
  no records are dropped when a filter is active.
\<close>

theorem filter_blank_is_identity:
  "(\<not> filter_active s \<and> \<not> filter_active t \<longrightarrow> filter_responses fo rs s t = Inr rs)
   \<and> ((filter_active s \<or> filter_active t) \<and> filter_responses fo rs s t = Inr ys
        \<longrightarrow> list_all is_dict ys)"
  using filter_active_drops [of s t fo rs ys]
  by (auto simp: filter_responses_def list_all_iff)

theorem filter_blank_is_identity_witness:
  "\<not> filter_active (Some '' '') \<and> \<not> filter_active None
   \<and> filter_responses example_ops [JInt 1, JDict []] (Some '' '') None = Inr [JInt 1, JDict []]
   \<and> filter_active (Some ''n/a'')
   \<and> filter_responses example_ops [JInt 1, JDict []] (Some ''n/a'') None = Inr []"
proof -
  have h1: "\<not> filter_active (Some '' '')"
    by (simp add: filter_active_def py_strip_def is_space_def)
  have h2: "\<not> filter_active None"
    by (simp add: filter_active_def)
  have h3: "filter_active (Some ''n/a'')"
    by (simp add: filter_active_def py_strip_def is_space_def)
  have ev: "filter_responses example_ops [JInt 1, JDict []] (Some ''n/a'') None = Inr []"
    by code_simp
  from filter_blank_is_identity [of "Some '' ''" None example_ops "[JInt 1, JDict []]" "[]"] h1 h2
  have "filter_responses example_ops [JInt 1, JDict []] (Some '' '') None = Inr [JInt 1, JDict []]"
    by simp
  with h1 h2 h3 ev show ?thesis by simp
qed

text \<open>
  Claim C6 as stated fails: for the input \<^verbatim>\<open>[1, {}]\<close> and two blank filters the result
  is not the subsequence of records \<^verbatim>\<open>[{}]\<close>.
\<close>

theorem filter_blank_keeps_non_records:
  "filter_responses example_ops [JInt 1, JDict []] (Some '''') (Some '''')
     \<noteq> Inr (filter is_dict [JInt 1, JDict []])"
  by (simp add: filter_responses_def filter_active_def)

text \<open>
  Claim C7: on records whose themes are sequences, the filter with sentiment
  \<^verbatim>\<open>"positive"\<close> and a blank theme returns exactly the entries whose canonical sentiment
  label is \<^verbatim>\<open>positive\<close>; with both filters given it returns the entries that pass both,
  which is also what the sentiment filter followed by the theme filter returns, and the
  theme filter followed by the sentiment filter. A theme passes when the key, trimmed and
  in lower case, is equal to one of the theme tokens.
\<close>

theorem filter_sentiment_theme:
  assumes "\<forall>r\<in>set rs. themes_sequence r"
  shows "filter_responses fo rs (Some ''positive'') (Some '''')
           = Inr (filter (\<lambda>r. sentiment_label fo r = Some ''positive'') rs)
       \<and> (filter_active (Some s) \<and> filter_active (Some t) \<longrightarrow>
            (\<exists>ys zs.
               filter_responses fo rs (Some s) (Some t)
                 = Inr (filter (\<lambda>r. sentiment_label fo r = Some (py_lower (py_strip s))
                                    \<and> py_lower (py_strip t) \<in> set (theme_tokens fo r)) rs)
             \<and> filter_responses fo rs (Some s) None = Inr ys
             \<and> filter_responses fo rs None (Some t) = Inr zs
             \<and> filter_responses fo ys None (Some t) = filter_responses fo rs (Some s) (Some t)
             \<and> filter_responses fo zs (Some s) None = filter_responses fo rs (Some s) (Some t)))"
proof (intro conjI impI)
  show "filter_responses fo rs (Some ''positive'') (Some '''')
          = Inr (filter (\<lambda>r. sentiment_label fo r = Some ''positive'') rs)"
    using filter_responses_sentiment_only [OF positive_active blank_inactive, of fo rs]
    by (simp add: positive_canonical)
next
  assume act: "filter_active (Some s) \<and> filter_active (Some t)"
  have none: "\<not> filter_active None" by (simp add: filter_active_def)
  let ?P = "\<lambda>r. sentiment_label fo r = Some (py_lower (py_strip s))"
  let ?Q = "\<lambda>r. py_lower (py_strip t) \<in> set (theme_tokens fo r)"
  have both: "filter_responses fo rs (Some s) (Some t) = Inr (filter (\<lambda>r. ?P r \<and> ?Q r) rs)"
    using act assms by (simp add: filter_responses_both)
  have s_only: "filter_responses fo rs (Some s) None = Inr (filter ?P rs)"
    using act none by (simp add: filter_responses_sentiment_only)
  have t_only: "filter_responses fo rs None (Some t) = Inr (filter ?Q rs)"
    using act none assms by (simp add: filter_responses_theme_only)
  have seq1: "filter_responses fo (filter ?P rs) None (Some t) = Inr (filter ?Q (filter ?P rs))"
    using act none assms by (simp add: filter_responses_theme_only)
  have seq2: "filter_responses fo (filter ?Q rs) (Some s) None = Inr (filter ?P (filter ?Q rs))"
    using act none by (simp add: filter_responses_sentiment_only)
  have e1: "filter ?Q (filter ?P rs) = filter (\<lambda>r. ?P r \<and> ?Q r) rs"
    by (induction rs) auto
  have e2: "filter ?P (filter ?Q rs) = filter (\<lambda>r. ?P r \<and> ?Q r) rs"
    by (induction rs) auto
  show "\<exists>ys zs.
               filter_responses fo rs (Some s) (Some t)
                 = Inr (filter (\<lambda>r. sentiment_label fo r = Some (py_lower (py_strip s))
                                    \<and> py_lower (py_strip t) \<in> set (theme_tokens fo r)) rs)
             \<and> filter_responses fo rs (Some s) None = Inr ys
             \<and> filter_responses fo rs None (Some t) = Inr zs
             \<and> filter_responses fo ys None (Some t) = filter_responses fo rs (Some s) (Some t)
             \<and> filter_responses fo zs (Some s) None = filter_responses fo rs (Some s) (Some t)"
  proof (intro exI conjI)
    show "filter_responses fo rs (Some s) (Some t) = Inr (filter (\<lambda>r. ?P r \<and> ?Q r) rs)"
      by (rule both)
    show "filter_responses fo rs (Some s) None = Inr (filter ?P rs)"
      by (rule s_only)
    show "filter_responses fo rs None (Some t) = Inr (filter ?Q rs)"
      by (rule t_only)
    show "filter_responses fo (filter ?P rs) None (Some t) = filter_responses fo rs (Some s) (Some t)"
      unfolding seq1 both e1 ..
    show "filter_responses fo (filter ?Q rs) (Some s) None = filter_responses fo rs (Some s) (Some t)"
      unfolding seq2 both e2 ..
  qed
qed

theorem filter_sentiment_theme_witness:
  "list_all themes_sequence
       [JDict [(''ai_sentiment'', JStr ''Positive''), (''ai_themes'', JList [JStr ''Camera_Quality''])],
        JInt 1, JDict [(''ai_sentiment'', JStr ''negative'')]]
   \<and> filter_active (Some ''Positive'') \<and> filter_active (Some ''camera'')
   \<and> filter_responses example_ops
       [JDict [(''ai_sentiment'', JStr ''Positive''), (''ai_themes'', JList [JStr ''Camera_Quality''])],
        JInt 1, JDict [(''ai_sentiment'', JStr ''negative'')]]
       (Some ''positive'') (Some '''')
     = Inr [JDict [(''ai_sentiment'', JStr ''Positive''), (''ai_themes'', JList [JStr ''Camera_Quality''])]]
   \<and> filter_responses example_ops
       [JDict [(''ai_sentiment'', JStr ''Positive''), (''ai_themes'', JList [JStr ''Camera_Quality''])],
        JInt 1, JDict [(''ai_sentiment'', JStr ''negative'')]]
       (Some ''Positive'') (Some ''camera'')
     = Inr []"
proof -
  let ?rs = "[JDict [(''ai_sentiment'', JStr ''Positive''), (''ai_themes'', JList [JStr ''Camera_Quality''])],
        JInt 1, JDict [(''ai_sentiment'', JStr ''negative'')]]"
  have h: "\<forall>r\<in>set ?rs. themes_sequence r"
    by (simp add: themes_sequence_def dict_get_def)
  have act: "filter_active (Some ''Positive'') \<and> filter_active (Some ''camera'')"
    by (simp add: filter_active_def py_strip_def is_space_def)
  have lab: "filter (\<lambda>r. sentiment_label example_ops r = Some ''positive'') ?rs = [hd ?rs]"
    by code_simp
  have both: "filter (\<lambda>r. sentiment_label example_ops r = Some (py_lower (py_strip ''Positive''))
                  \<and> py_lower (py_strip ''camera'') \<in> set (theme_tokens example_ops r)) ?rs = []"
    by code_simp
  show ?thesis
    using filter_sentiment_theme [OF h, of example_ops "''Positive''" "''camera''"] h act lab both
    by simp
qed

section \<open>Properties of the tally\<close>

lemma first_seen_snoc:
  "first_seen (xs @ [x]) = (if x \<in> set xs then first_seen xs else first_seen xs @ [x])"
  by (simp add: first_seen_def)

lemma set_first_seen [simp]: "set (first_seen xs) = set xs"
  by (simp add: first_seen_def)

lemma distinct_first_seen [simp]: "distinct (first_seen xs)"
  by (simp add: first_seen_def)

lemma map_of_graph:
  "map_of (map (\<lambda>w. (w, f w)) xs) w = (if w \<in> set xs then Some (f w) else None)"
  by (induction xs) auto

lemma map_of_tally:
  "map_of (tally ws) w = (if w \<in> set ws then Some (int (count_list ws w)) else None)"
  by (simp add: tally_def map_of_graph)

lemma bump_tally: "bump (tally ws) w = tally (ws @ [w])"
proof (cases "w \<in> set ws")
  case True
  have "map (\<lambda>kv. if fst kv = w then (w, snd kv + 1) else kv) (tally ws) = tally (ws @ [w])"
    using True by (auto simp: tally_def first_seen_snoc)
  with True show ?thesis by (simp add: bump_def map_of_tally)
next
  case False
  have keep: "map (\<lambda>x. (x, int (count_list (ws @ [w]) x))) (first_seen ws)
          = map (\<lambda>x. (x, int (count_list ws x))) (first_seen ws)"
    using False by (intro map_cong) auto
  have "bump (tally ws) w = tally ws @ [(w, 1)]"
    using False by (simp add: bump_def map_of_tally)
  also have "\<dots> = map (\<lambda>x. (x, int (count_list (ws @ [w]) x))) (first_seen ws) @ [(w, 1)]"
    unfolding keep by (simp add: tally_def)
  also have "\<dots> = tally (ws @ [w])"
    using False unfolding tally_def first_seen_snoc by simp
  finally show ?thesis .
qed

lemma foldl_bump_tally: "foldl bump (tally us) ws = tally (us @ ws)"
  by (induction ws arbitrary: us) (simp_all add: bump_tally)

lemma counter_tally: "counter ws = tally ws"
  using foldl_bump_tally [of "[]" ws] by (simp add: counter_def tally_def first_seen_def)

section \<open>Properties of the chart aggregation\<close>

lemma count_ok_get:
  "count_ok kvs k \<Longrightarrow> \<exists>i. 0 \<le> i \<and> dict_get kvs k (JInt 0) = JInt i"
  by (auto simp: count_ok_def dict_get_def split: option.splits json.splits)

lemma py_add_ints: "py_add fo (JInt i) (JInt j) = Inr (JInt (i + j))"
  by (simp add: py_add_def)

lemma sentiment_split_ints:
  assumes "dict_get kvs ''positiveCount'' (JInt 0) = JInt i"
      and "dict_get kvs ''neutralCount'' (JInt 0) = JInt j"
      and "dict_get kvs ''negativeCount'' (JInt 0) = JInt k"
  shows "sentiment_split fo (JDict kvs)
           = Inr (if i + j + k = 0 then (JInt 1, JInt 1, JInt 1) else (JInt i, JInt j, JInt k))"
  using assms by (simp add: sentiment_split_def py_add_ints)

text \<open>
  Claim C3: for a summary whose three counts are as the data model has them (each missing,
  hence 0, or an integer that is not negative), the values of the sentiment split are
  \<open>(1, 1, 1)\<close> when all three counts are zero, and the three counts unchanged when one of
  them is not.
\<close>

theorem sentiment_split_degenerate:
  assumes "count_ok kvs ''positiveCount''"
      and "count_ok kvs ''neutralCount''"
      and "count_ok kvs ''negativeCount''"
  shows "sentiment_split fo (JDict kvs)
           = Inr (if dict_get kvs ''positiveCount'' (JInt 0) = JInt 0
                     \<and> dict_get kvs ''neutralCount'' (JInt 0) = JInt 0
                     \<and> dict_get kvs ''negativeCount'' (JInt 0) = JInt 0
                  then (JInt 1, JInt 1, JInt 1)
                  else (dict_get kvs ''positiveCount'' (JInt 0),
                        dict_get kvs ''neutralCount'' (JInt 0),
                        dict_get kvs ''negativeCount'' (JInt 0)))"
proof -
  from assms(1) obtain i where i: "0 \<le> i" "dict_get kvs ''positiveCount'' (JInt 0) = JInt i"
    using count_ok_get by blast
  from assms(2) obtain j where j: "0 \<le> j" "dict_get kvs ''neutralCount'' (JInt 0) = JInt j"
    using count_ok_get by blast
  from assms(3) obtain k where k: "0 \<le> k" "dict_get kvs ''negativeCount'' (JInt 0) = JInt k"
    using count_ok_get by blast
  have "(i + j + k = 0) = (i = 0 \<and> j = 0 \<and> k = 0)"
    using i(1) j(1) k(1) by arith
  then show ?thesis
    using sentiment_split_ints [OF i(2) j(2) k(2), of fo] by (simp add: i(2) j(2) k(2))
qed

theorem sentiment_split_degenerate_witness:
  "count_ok [(''positiveCount'', JInt 0), (''negativeCount'', JInt 0)] ''positiveCount''
   \<and> count_ok [(''positiveCount'', JInt 0), (''negativeCount'', JInt 0)] ''neutralCount''
   \<and> count_ok [(''positiveCount'', JInt 0), (''negativeCount'', JInt 0)] ''negativeCount''
   \<and> sentiment_split example_ops (JDict [(''positiveCount'', JInt 0), (''negativeCount'', JInt 0)])
       = Inr (JInt 1, JInt 1, JInt 1)
   \<and> sentiment_split example_ops
         (JDict [(''positiveCount'', JInt 3), (''neutralCount'', JInt 1), (''negativeCount'', JInt 0)])
       = Inr (JInt 3, JInt 1, JInt 0)"
proof -
  let ?kvs = "[(''positiveCount'', JInt 0), (''negativeCount'', JInt 0)]"
  let ?lvs = "[(''positiveCount'', JInt 3), (''neutralCount'', JInt 1), (''negativeCount'', JInt 0)]"
  have h1: "count_ok ?kvs ''positiveCount''" by (simp add: count_ok_def)
  have h2: "count_ok ?kvs ''neutralCount''" by (simp add: count_ok_def)
  have h3: "count_ok ?kvs ''negativeCount''" by (simp add: count_ok_def)
  have k1: "count_ok ?lvs ''positiveCount''" by (simp add: count_ok_def)
  have k2: "count_ok ?lvs ''neutralCount''" by (simp add: count_ok_def)
  have k3: "count_ok ?lvs ''negativeCount''" by (simp add: count_ok_def)
  show ?thesis
    using h1 h2 h3 sentiment_split_degenerate [OF h1 h2 h3, of example_ops]
      sentiment_split_degenerate [OF k1 k2 k3, of example_ops]
    by (simp add: dict_get_def)
qed

text \<open>The code tests the sum of the counts; counts outside the data model can cancel.\<close>

lemma sentiment_split_cancelling:
  "sentiment_split fo (JDict [(''positiveCount'', JInt 1), (''neutralCount'', JInt (- 1))])
     = Inr (JInt 1, JInt 1, JInt 1)"
  by (simp add: sentiment_split_def dict_get_def py_add_def Let_def)

lemma derive_fold:
  "foldl (\<lambda>counts r. case r of JDict kvs \<Rightarrow> bump counts (derived_name fo kvs) | _ \<Rightarrow> counts) cs rs
     = foldl bump cs (record_sources fo rs)"
  by (induction rs arbitrary: cs) (auto simp: record_sources_def split: json.splits)

lemma derive_source_breakdown_tally:
  "derive_source_breakdown fo rs = tally (record_sources fo rs)"
  using counter_tally [of "record_sources fo rs"]
  by (simp add: derive_source_breakdown_def derive_fold counter_def)

lemma derived_name_cases:
  "derived_name fo r = ''Amazon Reviews'' \<or> derived_name fo r = ''Google News''"
  by (simp add: derived_name_def Let_def)

lemma record_sources_names:
  "set (record_sources fo rs) \<subseteq> {''Amazon Reviews'', ''Google News''}"
  using derived_name_cases by (auto simp: record_sources_def split: json.splits)

lemma amazon_low: "py_lower ''Amazon Reviews'' = ''amazon reviews''"
  by code_simp

lemma google_low: "py_lower ''Google News'' = ''google news''"
  by code_simp

lemma amazon_tests:
  "py_contains ''amazon'' ''amazon reviews''"
  "\<not> py_contains ''google'' ''amazon reviews''"
  "\<not> py_contains ''rss'' ''amazon reviews''"
  "\<not> py_contains ''news'' ''amazon reviews''"
  by code_simp+

lemma google_tests: "py_contains ''google'' ''google news''"
  by code_simp

lemma source_label_fixed:
  "source_label fo (JStr ''Amazon Reviews'') = ''Amazon Reviews''"
  "source_label fo (JStr ''Google News'') = ''Google News''"
  by (simp_all add: source_label_def py_str_def Let_def amazon_low google_low amazon_tests google_tests)

lemma source_bars_counts:
  "set (map fst cs) \<subseteq> {''Amazon Reviews'', ''Google News''} \<Longrightarrow>
   source_bars fo (items_json (map (\<lambda>kv. (fst kv, JInt (snd kv))) cs))
     = Inr (map (\<lambda>kv. (fst kv, JInt (snd kv))) cs)"
proof (induction cs)
  case Nil
  then show ?case by (simp add: items_json_def)
next
  case (Cons c cs)
  then have "fst c = ''Amazon Reviews'' \<or> fst c = ''Google News''" by auto
  then have "source_label fo (JStr (fst c)) = fst c"
    using source_label_fixed by metis
  with Cons show ?case
    by (simp add: items_json_def source_value_def)
qed

lemma fst_tally: "map fst (tally ws) = first_seen ws"
  by (simp add: tally_def comp_def)

text \<open>
  Claim C8, as the code has it: for a summary whose \<^verbatim>\<open>sourceBreakdown\<close> is missing or
  empty and a list of entries that is not empty, the source bars are the tally of the
  source names of the records, where the name of a record is \<^verbatim>\<open>Amazon Reviews\<close> when its
  key (\<^verbatim>\<open>feed_type\<close>, else \<^verbatim>\<open>source\<close>, else \<^verbatim>\<open>Other\<close>) holds \<^verbatim>\<open>amazon\<close> in any case,
  and \<^verbatim>\<open>Google News\<close> for every other key.
\<close>

theorem by_source_derived:
  assumes "dict_get kvs ''sourceBreakdown'' (JDict []) = JDict []" and "rs \<noteq> []"
  shows "by_source fo (JDict kvs) rs
           = Inr (map (\<lambda>n. (n, JInt (int (count_list (record_sources fo rs) n))))
                    (first_seen (record_sources fo rs)))
         \<and> set (record_sources fo rs) \<subseteq> {''Amazon Reviews'', ''Google News''}"
proof -
  let ?ns = "record_sources fo rs"
  have names: "set (map fst (tally ?ns)) \<subseteq> {''Amazon Reviews'', ''Google News''}"
    using record_sources_names [of fo rs] by (simp add: fst_tally)
  have bars: "source_bars fo (items_json (map (\<lambda>kv. (fst kv, JInt (snd kv))) (tally ?ns)))
                = Inr (map (\<lambda>kv. (fst kv, JInt (snd kv))) (tally ?ns))"
    using names by (rule source_bars_counts)
  have shape: "map (\<lambda>kv. (fst kv, JInt (snd kv))) (tally ?ns)
                 = map (\<lambda>n. (n, JInt (int (count_list ?ns n)))) (first_seen ?ns)"
    by (simp add: tally_def comp_def)
  have empty: "tally ?ns = [] \<Longrightarrow> first_seen ?ns = []"
    by (simp add: tally_def)
  have "by_source fo (JDict kvs) rs
          = Inr (map (\<lambda>n. (n, JInt (int (count_list ?ns n)))) (first_seen ?ns))"
  proof (cases "tally ?ns = []")
    case True
    with assms empty show ?thesis
      by (simp add: by_source_def Let_def derive_source_breakdown_tally items_json_def)
  next
    case False
    with assms bars shape show ?thesis
      by (simp add: by_source_def Let_def derive_source_breakdown_tally items_json_def)
  qed
  then show ?thesis using record_sources_names [of fo rs] by simp
qed

theorem by_source_derived_witness:
  "dict_get [(''totalItems'', JInt 3)] ''sourceBreakdown'' (JDict []) = JDict []
   \<and> [JDict [(''source'', JStr ''twitter'')], JDict [(''feed_type'', JStr ''Amazon_csv'')], JInt 3, JDict []] \<noteq> []
   \<and> by_source example_ops (JDict [(''totalItems'', JInt 3)])
        [JDict [(''source'', JStr ''twitter'')], JDict [(''feed_type'', JStr ''Amazon_csv'')], JInt 3, JDict []]
      = Inr [(''Google News'', JInt 2), (''Amazon Reviews'', JInt 1)]"
proof -
  let ?rs = "[JDict [(''source'', JStr ''twitter'')], JDict [(''feed_type'', JStr ''Amazon_csv'')], JInt 3, JDict []]"
  have h1: "dict_get [(''totalItems'', JInt 3)] ''sourceBreakdown'' (JDict []) = JDict []"
    by (simp add: dict_get_def)
  have h2: "?rs \<noteq> []" by simp
  have ns: "record_sources example_ops ?rs = [''Google News'', ''Amazon Reviews'', ''Google News'']"
    by code_simp
  have fs: "first_seen [''Google News'', ''Amazon Reviews'', ''Google News''] = [''Google News'', ''Amazon Reviews'']"
    by code_simp
  show ?thesis
    using h1 h2 by_source_derived [OF h1 h2, of example_ops] by (simp add: ns fs)
qed

text \<open>
  Claim C8 as stated fails: the rule for the source names of a summary makes \<^verbatim>\<open>twitter\<close>
  into \<^verbatim>\<open>Twitter\<close>, but a record whose source is \<^verbatim>\<open>twitter\<close> is counted under
  \<^verbatim>\<open>Google News\<close>.
\<close>

theorem by_source_derived_not_title_cased:
  "by_source example_ops (JDict []) [JDict [(''source'', JStr ''twitter'')]] = Inr [(''Google News'', JInt 1)]
   \<and> source_label example_ops (JStr ''twitter'') = ''Twitter''"
  by code_simp

section \<open>Properties of the keyword fallback\<close>

lemma tally_labels_fold:
  "tally_labels fo counts ts = foldl bump counts (map (label_key fo) (filter py_truthy ts))"
  unfolding tally_labels_def by (induction ts arbitrary: counts) simp_all

lemma iter_sequence:
  "v = JNull \<or> (\<exists>ts. v = JList ts) \<Longrightarrow>
   py_iter (py_or v (JList [])) = Inr (case v of JList ts \<Rightarrow> ts | _ \<Rightarrow> [])"
  by (auto simp: py_or_def)

lemma tally_record_labels:
  assumes "themes_sequence r" and "concerns_sequence r"
  shows "tally_record fo counts r = Inr (foldl bump counts (record_labels fo r))"
proof (cases r)
  case (JDict kvs)
  let ?t = "dict_get kvs ''ai_themes'' JNull"
  let ?c = "dict_get kvs ''ai_concerns'' JNull"
  have t: "?t = JNull \<or> (\<exists>ts. ?t = JList ts)"
    using assms(1) JDict by (auto simp: themes_sequence_def split: json.splits)
  have c: "?c = JNull \<or> (\<exists>ts. ?c = JList ts)"
    using assms(2) JDict by (auto simp: concerns_sequence_def split: json.splits)
  have lt: "labels_of fo ?t = map (label_key fo) (filter py_truthy (case ?t of JList ts \<Rightarrow> ts | _ \<Rightarrow> []))"
    using t by (auto simp: labels_of_def)
  have lc: "labels_of fo ?c = map (label_key fo) (filter py_truthy (case ?c of JList ts \<Rightarrow> ts | _ \<Rightarrow> []))"
    using c by (auto simp: labels_of_def)
  show ?thesis
    using JDict
    by (simp add: tally_record_def iter_sequence [OF t] iter_sequence [OF c]
          tally_labels_fold record_labels_def lt lc)
qed (simp_all add: tally_record_def record_labels_def)

lemma tally_records_labels:
  "\<forall>r\<in>set rs. themes_sequence r \<and> concerns_sequence r \<Longrightarrow>
   tally_records fo counts rs = Inr (foldl bump counts (concat (map (record_labels fo) rs)))"
  by (induction rs arbitrary: counts) (simp_all add: tally_record_labels)

lemma tally_records_tally:
  "\<forall>r\<in>set rs. themes_sequence r \<and> concerns_sequence r \<Longrightarrow>
   tally_records fo [] rs = Inr (tally (concat (map (record_labels fo) rs)))"
  using counter_tally by (simp add: tally_records_labels counter_def)

text \<open>The first \<open>n\<close> of a list sorted by falling count are its \<open>n\<close> most frequent entries.\<close>

lemma top_by_count_subset: "set (top_by_count n items) \<subseteq> set items"
  using set_take_subset [of "nat n" "sort_key (\<lambda>kv. - snd kv) items"]
  by (simp add: top_by_count_def)

lemma top_by_count_length: "length (top_by_count n items) = min (nat n) (length items)"
  by (simp add: top_by_count_def min.commute)

lemma top_by_count_sorted: "sorted (map (\<lambda>kv. - snd kv) (top_by_count n items))"
proof -
  have "sorted (map (\<lambda>kv. - snd kv) (sort_key (\<lambda>kv. - snd kv) items))"
    by (rule sorted_sort_key)
  then have "sorted (take (nat n) (map (\<lambda>kv. - snd kv) (sort_key (\<lambda>kv. - snd kv) items)))"
    by (rule sorted_wrt_take)
  then show ?thesis by (simp add: top_by_count_def take_map)
qed

lemma top_by_count_dominates:
  assumes "kv \<in> set items" and "kv \<notin> set (top_by_count n items)"
      and "kv' \<in> set (top_by_count n items)"
  shows "snd kv \<le> snd kv'"
proof -
  let ?s = "sort_key (\<lambda>kv. - snd kv) items"
  have split: "?s = take (nat n) ?s @ drop (nat n) ?s" by simp
  have "kv \<in> set ?s" using assms(1) by simp
  then have "kv \<in> set (take (nat n) ?s) \<or> kv \<in> set (drop (nat n) ?s)"
    by (metis Un_iff append_take_drop_id set_append)
  with assms(2) have d: "kv \<in> set (drop (nat n) ?s)" by (simp add: top_by_count_def)
  have t: "kv' \<in> set (take (nat n) ?s)" using assms(3) by (simp add: top_by_count_def)
  have "sorted (map (\<lambda>kv. - snd kv) (take (nat n) ?s @ drop (nat n) ?s))"
    using sorted_sort_key [of "\<lambda>kv. - snd kv" items] by simp
  then have "\<forall>x\<in>set (take (nat n) ?s). \<forall>y\<in>set (drop (nat n) ?s). - snd x \<le> - snd y"
    unfolding map_append sorted_append by auto
  with d t show ?thesis by auto
qed

text \<open>
  Claim C5: on records whose themes and concerns are sequences, when the keyword
  extraction returns nothing, the keyword tab returns the tally of the theme and concern
  labels of the records, cut to the \<open>n\<close> most frequent, \<open>n\<close> being the slider value
  clamped to 10..50: it is the first \<open>n\<close> entries of the tally sorted by falling count
  (entries of equal count in the order of the tally), so it holds \<open>n\<close> entries or the
  whole tally, and no entry left out has a higher count than an entry kept.
\<close>

theorem tab3_fallback_tally:
  assumes "\<forall>r\<in>set filtered. themes_sequence r \<and> concerns_sequence r"
      and "extract_keywords_from_reviews fo filtered (max 10 (min 50 top_kw)) = []"
  shows "\<exists>res. tab3_keywords fo filtered top_kw = Inr res
           \<and> res = top_by_count (max 10 (min 50 top_kw))
                     (tally (concat (map (record_labels fo) filtered)))
           \<and> set res \<subseteq> set (tally (concat (map (record_labels fo) filtered)))
           \<and> length res = min (nat (max 10 (min 50 top_kw)))
                            (length (first_seen (concat (map (record_labels fo) filtered))))
           \<and> sorted (map (\<lambda>kv. - snd kv) res)
           \<and> (\<forall>kv\<in>set (tally (concat (map (record_labels fo) filtered))). \<forall>kv'\<in>set res.
                 kv \<notin> set res \<longrightarrow> snd kv \<le> snd kv')"
proof -
  let ?n = "max 10 (min 50 top_kw)"
  let ?t = "tally (concat (map (record_labels fo) filtered))"
  have run: "tab3_keywords fo filtered top_kw = Inr (top_by_count ?n ?t)"
    using assms(2) tally_records_tally [OF assms(1), of fo]
    by (simp add: tab3_keywords_def Let_def)
  have len: "length (top_by_count ?n ?t)
               = min (nat ?n) (length (first_seen (concat (map (record_labels fo) filtered))))"
    by (simp add: top_by_count_length tally_def)
  show ?thesis
    using run len top_by_count_subset [of ?n ?t] top_by_count_sorted [of ?n ?t]
      top_by_count_dominates [of _ ?t ?n]
    by blast
qed

theorem tab3_fallback_tally_witness:
  "themes_sequence (JDict [(''headline'', JStr ''abc1''),
        (''ai_themes'', JList [JStr ''camera_quality'', JStr ''design'']),
        (''ai_concerns'', JList [JStr ''design''])])
   \<and> concerns_sequence (JDict [(''headline'', JStr ''abc1''),
        (''ai_themes'', JList [JStr ''camera_quality'', JStr ''design'']),
        (''ai_concerns'', JList [JStr ''design''])])
   \<and> extract_keywords_from_reviews example_ops
        [JDict [(''headline'', JStr ''abc1''),
           (''ai_themes'', JList [JStr ''camera_quality'', JStr ''design'']),
           (''ai_concerns'', JList [JStr ''design''])]] 25 = []
   \<and> tab3_keywords example_ops
        [JDict [(''headline'', JStr ''abc1''),
           (''ai_themes'', JList [JStr ''camera_quality'', JStr ''design'']),
           (''ai_concerns'', JList [JStr ''design''])]] 25
      = Inr [(''Design'', 2), (''Camera Quality'', 1)]"
proof -
  let ?r = "JDict [(''headline'', JStr ''abc1''),
        (''ai_themes'', JList [JStr ''camera_quality'', JStr ''design'']),
        (''ai_concerns'', JList [JStr ''design''])]"
  have t: "themes_sequence ?r" by (simp add: themes_sequence_def dict_get_def)
  have c: "concerns_sequence ?r" by (simp add: concerns_sequence_def dict_get_def)
  have h1: "\<forall>r\<in>set [?r]. themes_sequence r \<and> concerns_sequence r"
    using t c by simp
  have e: "extract_keywords_from_reviews example_ops [?r] 25 = []"
    by code_simp
  have h2: "extract_keywords_from_reviews example_ops [?r] (max 10 (min 50 25)) = []"
    using e by simp
  have ev: "top_by_count (max 10 (min 50 25)) (tally (concat (map (record_labels example_ops) [?r])))
              = [(''Design'', 2), (''Camera Quality'', 1)]"
    by code_simp
  from tab3_fallback_tally [OF h1 h2] obtain res where
    "tab3_keywords example_ops [?r] 25 = Inr res"
    "res = top_by_count (max 10 (min 50 25)) (tally (concat (map (record_labels example_ops) [?r])))"
    by blast
  with ev have "tab3_keywords example_ops [?r] 25 = Inr [(''Design'', 2), (''Camera Quality'', 1)]"
    by simp
  with t c e show ?thesis by simp
qed

section \<open>Properties of the keyword extraction\<close>

lemma scan_tokens_sound:
  "w \<in> set (scan_tokens prev s) \<Longrightarrow>
   \<exists>pre post. token_at pre w post s \<and> (pre = [] \<longrightarrow> \<not> prev)"
proof (induction prev s rule: scan_tokens.induct)
  case (1 prev)
  then show ?case by simp
next
  case (2 prev c cs)
  let ?run = "takeWhile is_lower (c # cs)"
  let ?rest = "dropWhile is_lower (c # cs)"
  let ?m = "\<not> prev \<and> 3 \<le> length ?run \<and> (case ?rest of [] \<Rightarrow> True | d # ds \<Rightarrow> \<not> is_word d)"
  show ?case
  proof (cases ?m)
    case True
    then have res: "scan_tokens prev (c # cs) = ?run # scan_tokens True ?rest" by simp
    show ?thesis
    proof (cases "w = ?run")
      case w: True
      have "token_at [] w ?rest (c # cs)"
        using True w unfolding token_at_def
        by (auto simp: list_all_iff dest: set_takeWhileD split: list.splits)
      with True show ?thesis by auto
    next
      case False
      with "2.prems" res have "w \<in> set (scan_tokens True ?rest)" by simp
      from "2.IH"(1) [OF True this] obtain pre post where
        t: "token_at pre w post ?rest" and ne: "pre \<noteq> []" by auto
      have "c # cs = ?run @ ?rest" by simp
      with t ne have "token_at (?run @ pre) w post (c # cs)"
        unfolding token_at_def by (metis append.assoc last_appendR)
      with ne show ?thesis by blast
    qed
  next
    case False
    then have res: "scan_tokens prev (c # cs) = scan_tokens (is_word c) cs" by auto
    with "2.prems" have "w \<in> set (scan_tokens (is_word c) cs)" by simp
    from "2.IH"(2) [OF False this] obtain pre post where
      t: "token_at pre w post cs" and p: "pre = [] \<longrightarrow> \<not> is_word c" by auto
    have "token_at (c # pre) w post (c # cs)"
      using t p unfolding token_at_def by auto
    then show ?thesis by blast
  qed
qed

lemma findall_tokens_sound:
  "w \<in> set (findall_tokens text) \<Longrightarrow> \<exists>pre post. token_at pre w post text"
  unfolding findall_tokens_def using scan_tokens_sound by blast

lemma takeWhile_run:
  "list_all P w \<Longrightarrow> post = [] \<or> \<not> P (hd post) \<Longrightarrow> takeWhile P (w @ post) = w"
  by (cases post) (auto simp: list_all_iff takeWhile_append)

lemma dropWhile_run:
  "list_all P w \<Longrightarrow> post = [] \<or> \<not> P (hd post) \<Longrightarrow> dropWhile P (w @ post) = post"
  by (cases post) (auto simp: list_all_iff dropWhile_append)

lemma alpha_runs_complete:
  "s = pre @ w @ post \<Longrightarrow> w \<noteq> [] \<Longrightarrow> list_all is_alpha w \<Longrightarrow>
   pre = [] \<or> \<not> is_alpha (last pre) \<Longrightarrow> post = [] \<or> \<not> is_alpha (hd post) \<Longrightarrow>
   w \<in> set (alpha_runs s)"
proof (induction s arbitrary: pre rule: alpha_runs.induct)
  case 1
  then show ?case by simp
next
  case (2 c cs)
  show ?case
  proof (cases pre)
    case Nil
    with "2.prems" have cw: "c # cs = w @ post" by simp
    with "2.prems" have "is_alpha c" by (cases w) (auto simp: list_all_iff)
    moreover have "takeWhile is_alpha (c # cs) = w"
      unfolding cw using "2.prems"(3,5) by (rule takeWhile_run)
    ultimately show ?thesis by simp
  next
    case (Cons p ps)
    with "2.prems" have pc: "p = c" and cs: "cs = ps @ w @ post" by simp_all
    from Cons "2.prems"(4) have last: "\<not> is_alpha (last pre)" by simp
    show ?thesis
    proof (cases "is_alpha c")
      case False
      have "ps = [] \<or> \<not> is_alpha (last ps)"
        using last Cons by (cases ps) auto
      from "2.IH"(2) [OF False cs "2.prems"(2,3) this "2.prems"(5)] False
      show ?thesis by simp
    next
      case True
      have ex: "\<exists>x\<in>set pre. \<not> is_alpha x"
        using last Cons by (metis last_in_set list.distinct(1))
      let ?pre' = "dropWhile is_alpha pre"
      have ne: "?pre' \<noteq> []" using ex by (simp add: dropWhile_eq_Nil_conv)
      from ex obtain x where x: "x \<in> set pre" "\<not> is_alpha x" by blast
      have d: "dropWhile is_alpha (c # cs) = ?pre' @ w @ post"
        unfolding "2.prems"(1) using x by (rule dropWhile_append1 [where P = is_alpha])
      have l: "\<not> is_alpha (last ?pre')"
        using last ne by (metis append_Nil2 last_appendR takeWhile_dropWhile_id)
      from "2.IH"(1) [OF True d "2.prems"(2,3) _ "2.prems"(5)] l True
      show ?thesis by simp
    qed
  qed
qed

lemma alpha_not_word: "\<not> is_word c \<Longrightarrow> \<not> is_alpha c"
  by (simp add: is_word_def is_alpha_def)

lemma token_at_spec_token:
  assumes "token_at pre w post text"
  shows "w \<in> set (spec_tokens text)"
proof -
  from assms have w: "text = pre @ w @ post" "3 \<le> length w" "list_all is_lower w"
    and b: "pre = [] \<or> \<not> is_word (last pre)" "post = [] \<or> \<not> is_word (hd post)"
    by (simp_all add: token_at_def)
  have ne: "w \<noteq> []" using w(2) by auto
  have al: "list_all is_alpha w" using w(3) by (simp add: list_all_iff is_alpha_def)
  have bl: "pre = [] \<or> \<not> is_alpha (last pre)" using b(1) alpha_not_word by blast
  have br: "post = [] \<or> \<not> is_alpha (hd post)" using b(2) alpha_not_word by blast
  have "w \<in> set (alpha_runs text)"
    by (rule alpha_runs_complete [OF w(1) ne al bl br])
  with w(2) show ?thesis by (simp add: spec_tokens_def)
qed

lemma words_concat:
  "foldl (\<lambda>words r. words @ record_words fo r) acc rs = acc @ concat (map (record_words fo) rs)"
  by (induction rs arbitrary: acc) simp_all

lemma keyword_is_word:
  assumes "kv \<in> set (extract_keywords_from_reviews fo rs n)"
  shows "\<exists>r\<in>set rs. fst kv \<in> set (record_words fo r)"
    and "snd kv = int (count_list (concat (map (record_words fo) rs)) (fst kv))"
proof -
  let ?ws = "concat (map (record_words fo) rs)"
  have "kv \<in> set (tally ?ws)"
    using assms top_by_count_subset [of n "tally ?ws"]
    by (auto simp: extract_keywords_from_reviews_def words_concat counter_tally)
  then have "fst kv \<in> set ?ws" and c: "snd kv = int (count_list ?ws (fst kv))"
    by (auto simp: tally_def)
  then show "\<exists>r\<in>set rs. fst kv \<in> set (record_words fo r)" by auto
  show "snd kv = int (count_list ?ws (fst kv))" by (rule c)
qed

lemma record_word_token:
  assumes "w \<in> set (record_words fo r)"
  shows "\<exists>kvs. r = JDict kvs \<and> w \<notin> set STOPWORDS
           \<and> w \<in> set (findall_tokens (py_lower (get_review_text fo kvs)))"
  using assms by (cases r) (auto simp: record_words_def Let_def split: if_splits)

text \<open>
  Claim C4: every keyword returned is a token in the sense of the specification, that is,
  a run of at least three letters of the lowercased text of a record, cut out at characters
  that are no letters (digits included), and no keyword returned is a stop word. The code
  gives more: the keyword is made of the letters \<^verbatim>\<open>a\<close> to \<^verbatim>\<open>z\<close> and is bounded on each
  side by the end of the text or by a character that is no letter, no digit and no
  underscore.
\<close>

theorem keywords_are_tokens:
  assumes "(w, c) \<in> set (extract_keywords_from_reviews fo rs n)"
  shows "w \<notin> set STOPWORDS
       \<and> (\<exists>kvs pre post. JDict kvs \<in> set rs
             \<and> token_at pre w post (py_lower (get_review_text fo kvs))
             \<and> w \<in> set (spec_tokens (py_lower (get_review_text fo kvs))))"
proof -
  from keyword_is_word(1) [OF assms] obtain r where r: "r \<in> set rs" "w \<in> set (record_words fo r)"
    by auto
  from record_word_token [OF r(2)] obtain kvs where k: "r = JDict kvs" "w \<notin> set STOPWORDS"
    "w \<in> set (findall_tokens (py_lower (get_review_text fo kvs)))" by blast
  from findall_tokens_sound [OF k(3)] obtain pre post where
    t: "token_at pre w post (py_lower (get_review_text fo kvs))" by blast
  from token_at_spec_token [OF t] r(1) k(1,2) t show ?thesis by blast
qed

theorem keywords_are_tokens_witness:
  "(''glasses'', 1) \<in> set (extract_keywords_from_reviews example_ops
        [JDict [(''headline'', JStr ''Great glasses, the best2go'')]] 25)
   \<and> ''glasses'' \<notin> set STOPWORDS
   \<and> token_at ''great '' ''glasses'' '', the best2go''
        (py_lower (get_review_text example_ops [(''headline'', JStr ''Great glasses, the best2go'')]))"
proof -
  let ?rs = "[JDict [(''headline'', JStr ''Great glasses, the best2go'')]]"
  have ev: "extract_keywords_from_reviews example_ops ?rs 25 = [(''great'', 1), (''glasses'', 1)]"
    by code_simp
  then have h: "(''glasses'', 1) \<in> set (extract_keywords_from_reviews example_ops ?rs 25)"
    by simp
  have t: "token_at ''great '' ''glasses'' '', the best2go''
        (py_lower (get_review_text example_ops [(''headline'', JStr ''Great glasses, the best2go'')]))"
    by code_simp
  show ?thesis
    using h t keywords_are_tokens [OF h] by simp
qed

text \<open>
  The converse does not hold: not every token of the specification is returned. In
  \<^verbatim>\<open>abc1\<close> the run \<^verbatim>\<open>abc\<close> touches a digit, and the code returns no keyword.
\<close>

lemma run_before_digit_not_returned:
  "extract_keywords_from_reviews example_ops [JDict [(''summary'', JStr ''abc1'')]] 25 = []
   \<and> spec_tokens (py_lower ''abc1'') = [''abc'']
   \<and> ''abc'' \<notin> set STOPWORDS"
  by code_simp

section \<open>Properties of the payload normalisation\<close>

lemma foldl_setdefault:
  "distinct (map fst ds) \<Longrightarrow> foldl dict_setdefault kvs ds = with_defaults kvs ds"
proof (induction ds arbitrary: kvs)
  case Nil
  then show ?case by (simp add: with_defaults_def)
next
  case (Cons d ds)
  show ?case
  proof (cases "has_key kvs (fst d)")
    case True
    with Cons show ?thesis by (simp add: dict_setdefault_def with_defaults_def)
  next
    case False
    have "filter (\<lambda>kv. \<not> has_key (kvs @ [d]) (fst kv)) ds = filter (\<lambda>kv. \<not> has_key kvs (fst kv)) ds"
    proof (rule filter_cong [OF refl])
      fix kv assume "kv \<in> set ds"
      then have "fst kv \<in> fst ` set ds" by (rule imageI)
      moreover from Cons.prems have "fst d \<notin> fst ` set ds" by simp
      ultimately have "fst kv \<noteq> fst d" by metis
      then show "(\<not> has_key (kvs @ [d]) (fst kv)) = (\<not> has_key kvs (fst kv))"
        by (auto simp: has_key_def)
    qed
    with Cons False show ?thesis by (simp add: dict_setdefault_def with_defaults_def)
  qed
qed

lemma setdefault_at:
  "a < length h \<Longrightarrow> h ! a = ODict kvs \<Longrightarrow>
   setdefault h (VRef a) k v = h[a := ODict (dict_setdefault kvs (k, v))]"
proof -
  assume a: "a < length h" "h ! a = ODict kvs"
  have "h[a := ODict kvs] = h" using a(2) by (metis list_update_id)
  with a show ?thesis by (simp add: setdefault_def dict_setdefault_def)
qed

lemma as_dict_ref:
  "as_dict h s = Some kvs \<Longrightarrow> \<exists>a. s = VRef a \<and> a < length h \<and> h ! a = ODict kvs"
  by (auto simp: as_dict_def split: val.splits if_splits obj.splits)

lemma as_list_ref:
  "as_list h s = Some xs \<Longrightarrow> \<exists>a. s = VRef a \<and> a < length h \<and> h ! a = OList xs"
  by (auto simp: as_list_def split: val.splits if_splits obj.splits)

lemma setdefault_upd:
  "a < length h \<Longrightarrow>
   setdefault (h[a := ODict kvs] @ ys) (VRef a) k v
     = h[a := ODict (dict_setdefault kvs (k, v))] @ ys"
  using setdefault_at [of a "h[a := ODict kvs] @ ys" kvs k v]
  by (simp add: nth_append list_update_append)

lemma fill_defaults_at:
  assumes "a < length h" and "h ! a = ODict kvs" and "py_len h r = Inr n"
  shows "fill_defaults h (VRef a) r
           = Inr (h[a := ODict (with_defaults kvs
                     (summary_defaults n (VRef (length h)) (VRef (length h + 1)) (VRef (length h + 2))))]
                  @ [ODict [], ODict [], ODict []])"
proof -
  let ?ds = "summary_defaults n (VRef (length h)) (VRef (length h + 1)) (VRef (length h + 2))"
  have d: "distinct (map fst ?ds)" by (simp add: summary_defaults_def)
  have start: "h = h[a := ODict kvs] @ []" using assms(2) by (metis append_Nil2 list_update_id)
  have step: "\<And>kvs ys k v. setdefault (h[a := ODict kvs] @ ys) (VRef a) k v
                 = h[a := ODict (dict_setdefault kvs (k, v))] @ ys"
    using assms(1) by (rule setdefault_upd)
  have step0: "\<And>kvs k v. setdefault (h[a := ODict kvs]) (VRef a) k v
                 = h[a := ODict (dict_setdefault kvs (k, v))]"
    using step [of _ "[]"] by simp
  have len: "\<And>kvs ys. length (h[a := ODict kvs] @ ys) = length h + length ys" by simp
  have "fill_defaults (h[a := ODict kvs]) (VRef a) r
          = Inr (h[a := ODict (foldl dict_setdefault kvs ?ds)] @ [ODict [], ODict [], ODict []])"
    using assms(3) start
    by (simp only: fill_defaults_def Let_def alloc_def step step0 len sum.case prod.case
          summary_defaults_def foldl.simps append.simps append_assoc list.size length_list_update)
       simp
  with start have "fill_defaults h (VRef a) r
          = Inr (h[a := ODict (foldl dict_setdefault kvs ?ds)] @ [ODict [], ODict [], ODict []])"
    by simp
  then show ?thesis unfolding foldl_setdefault [OF d] .
qed

lemma as_dict_append: "as_dict h v = Some kvs \<Longrightarrow> as_dict (h @ xs) v = Some kvs"
  by (auto simp: as_dict_def nth_append split: val.splits if_splits)

lemma as_list_append: "as_list h v = Some ys \<Longrightarrow> as_list (h @ xs) v = Some ys"
  by (auto simp: as_list_def nth_append split: val.splits if_splits)

lemma py_len_append: "py_len h v = Inr n \<Longrightarrow> py_len (h @ xs) v = Inr n"
  by (auto simp: py_len_def nth_append split: val.splits if_splits)

lemma dict_not_list: "as_dict h v = Some kvs \<Longrightarrow> as_list h v = None"
  by (auto simp: as_dict_def as_list_def split: val.splits if_splits obj.splits)

lemma list_not_dict: "as_list h v = Some xs \<Longrightarrow> as_dict h v = None"
  by (auto simp: as_dict_def as_list_def split: val.splits if_splits obj.splits)

lemma extract_fields_dict:
  assumes "as_dict h data = Some tkvs"
  shows "extract_fields h data
           = (h @ [ODict [], OList [], ODict [], OList []],
              val_get tkvs ''sentiment'' (VRef (length h + 2)),
              val_get tkvs ''responses'' (VRef (length h + 3)))"
proof -
  have d: "as_dict ((h @ [ODict []]) @ [OList []]) data = Some tkvs"
    by (intro as_dict_append assms)
  have "as_dict (((h @ [ODict []]) @ [OList []]) @ [ODict [], OList []]) data = Some tkvs"
    by (intro as_dict_append assms)
  then have l: "as_list (h @ [ODict [], OList [], ODict [], OList []]) data = None"
    using dict_not_list by fastforce
  show ?thesis
    using d l by (simp add: extract_fields_def alloc_def eval_nat_numeral)
qed

lemma extract_fields_first:
  assumes "as_list h data = Some (first # rest)" and "as_dict h first = Some fkvs"
  shows "extract_fields h data
           = (h @ [ODict [], OList [],
                   OList (if has_key fkvs ''headline'' \<or> has_key fkvs ''personalized_response''
                          then [first] else [])],
              val_get fkvs ''sentiment'' first,
              val_get fkvs ''responses'' (VRef (length h + 2)))"
proof -
  have l: "as_list ((h @ [ODict []]) @ [OList []]) data = Some (first # rest)"
    by (intro as_list_append assms)
  then have d: "as_dict ((h @ [ODict []]) @ [OList []]) data = None"
    by (rule list_not_dict)
  have f: "as_dict ((h @ [ODict []]) @ [OList []]) first = Some fkvs"
    by (intro as_dict_append assms)
  show ?thesis
    using l d f by (simp add: extract_fields_def alloc_def eval_nat_numeral)
qed

lemma extract_fields_grows: "\<exists>xs. fst (extract_fields h data) = h @ xs"
  by (auto simp: extract_fields_def alloc_def Let_def split: option.splits list.splits prod.splits)

lemma wrap_responses_grows:
  "\<exists>xs. fst (wrap_responses h r) = h @ xs
        \<and> as_list (h @ xs) (snd (wrap_responses h r)) \<noteq> None"
proof (cases "as_list h r = None")
  case True
  then have "fst (wrap_responses h r) = h @ [OList (if as_dict h r \<noteq> None then [r] else [])]"
    and "snd (wrap_responses h r) = VRef (length h)"
    by (simp_all add: wrap_responses_def alloc_def)
  then show ?thesis by (auto simp: as_list_def)
next
  case False
  then have "fst (wrap_responses h r) = h @ []" and "snd (wrap_responses h r) = r"
    by (simp_all add: wrap_responses_def)
  with False show ?thesis by (metis append_Nil2)
qed

lemma wrap_responses_list:
  "as_list h r = Some xs \<Longrightarrow> wrap_responses h r = (h, r)"
  by (simp add: wrap_responses_def)

lemma parse_no_dict:
  assumes "extract_fields h data = (h1, s, r)" and "as_dict h1 s = None"
  shows "parse_workflow_response h data
           = Inr (fst (wrap_responses h1 r), s, snd (wrap_responses h1 r))"
  using assms by (simp add: parse_workflow_response_def split: prod.splits)

lemma parse_dict:
  assumes "extract_fields h data = (h1, VRef a, r)" and "as_dict h1 (VRef a) = Some kvs"
      and "py_len h1 r = Inr n"
      and "h2 = h1[a := ODict (with_defaults kvs
                     (summary_defaults n (VRef (length h1)) (VRef (length h1 + 1)) (VRef (length h1 + 2))))]
                  @ [ODict [], ODict [], ODict []]"
  shows "parse_workflow_response h data
           = Inr (fst (wrap_responses h2 r), VRef a, snd (wrap_responses h2 r))"
proof -
  from as_dict_ref [OF assms(2)] have a: "a < length h1" "h1 ! a = ODict kvs" by auto
  show ?thesis
    using assms(1,2,4) fill_defaults_at [OF a assms(3)]
    by (simp add: parse_workflow_response_def split: prod.splits)
qed

lemma filled_heap:
  assumes "a < length h1" and "h2 = h1[a := ODict X] @ [ODict [], ODict [], ODict []]"
  shows "as_dict h2 (VRef a) = Some X"
    and "as_dict h2 (VRef (length h1)) = Some []"
    and "as_dict h2 (VRef (length h1 + 1)) = Some []"
    and "as_dict h2 (VRef (length h1 + 2)) = Some []"
    and "\<And>b. b < length h1 \<Longrightarrow> b \<noteq> a \<Longrightarrow> h2 ! b = h1 ! b"
    and "length h2 = length h1 + 3"
  using assms by (simp_all add: as_dict_def nth_append)

lemma val_get_absent: "\<not> has_key kvs k \<Longrightarrow> val_get kvs k d = d"
  by (simp add: val_get_def has_key_def map_of_eq_None_iff [THEN iffD2])

lemma val_get_present: "map_of kvs k = Some v \<Longrightarrow> val_get kvs k d = v"
  by (simp add: val_get_def)

lemma py_len_list: "as_list h r = Some R \<Longrightarrow> py_len h r = Inr (int (length R))"
  by (auto simp: as_list_def py_len_def split: val.splits if_splits obj.splits)

lemma fresh_grow: "fresh (h @ xs) v \<Longrightarrow> fresh h v"
  by (auto simp: fresh_def split: val.splits)

lemma parse_raises:
  assumes "extract_fields h data = (h1, s, r)" and "as_dict h1 s = Some kvs"
      and "py_len h1 r = Inl e"
  shows "parse_workflow_response h data = Inl e"
  using assms by (simp add: parse_workflow_response_def fill_defaults_def)

lemma parse_filled:
  assumes ex: "extract_fields h data = (h @ xs, VRef a, r)"
      and d: "as_dict (h @ xs) (VRef a) = Some kvs"
      and n: "py_len (h @ xs) r = Inr n"
  shows "\<exists>h' r' t1 t2 t3 ys.
           parse_workflow_response h data = Inr (h', VRef a, r')
         \<and> h' = ((h @ xs)[a := ODict (with_defaults kvs (summary_defaults n t1 t2 t3))]
                  @ [ODict [], ODict [], ODict []]) @ ys
         \<and> as_list h' r' \<noteq> None
         \<and> (as_list (h @ xs) r \<noteq> None \<longrightarrow> r' = r)
         \<and> as_dict h' (VRef a) = Some (with_defaults kvs (summary_defaults n t1 t2 t3))
         \<and> fresh (h @ xs) t1 \<and> fresh (h @ xs) t2 \<and> fresh (h @ xs) t3 \<and> distinct [t1, t2, t3]
         \<and> as_dict h' t1 = Some [] \<and> as_dict h' t2 = Some [] \<and> as_dict h' t3 = Some []"
proof -
  let ?h1 = "h @ xs"
  let ?t1 = "VRef (length ?h1)" and ?t2 = "VRef (length ?h1 + 1)" and ?t3 = "VRef (length ?h1 + 2)"
  let ?X = "with_defaults kvs (summary_defaults n ?t1 ?t2 ?t3)"
  define h2 where "h2 = ?h1[a := ODict ?X] @ [ODict [], ODict [], ODict []]"
  from as_dict_ref [OF d] have a: "a < length ?h1" "?h1 ! a = ODict kvs" by auto
  note fh = filled_heap [OF a(1) h2_def]
  have p: "parse_workflow_response h data
             = Inr (fst (wrap_responses h2 r), VRef a, snd (wrap_responses h2 r))"
    by (rule parse_dict [OF ex d n h2_def])
  from wrap_responses_grows [of h2 r] obtain ys where
    w: "fst (wrap_responses h2 r) = h2 @ ys"
       "as_list (h2 @ ys) (snd (wrap_responses h2 r)) \<noteq> None" by blast
  have keep: "as_list ?h1 r \<noteq> None \<longrightarrow> snd (wrap_responses h2 r) = r"
  proof
    assume "as_list ?h1 r \<noteq> None"
    then obtain R where R: "as_list ?h1 r = Some R" by auto
    from as_list_ref [OF R] obtain b where b: "r = VRef b" "b < length ?h1" "?h1 ! b = OList R"
      by auto
    with a have "b \<noteq> a" by auto
    with fh(5) b have "h2 ! b = OList R" by simp
    with b fh(6) have "as_list h2 r = Some R" by (simp add: as_list_def)
    then show "snd (wrap_responses h2 r) = r" by (simp add: wrap_responses_list)
  qed
  have fr: "fresh ?h1 ?t1" "fresh ?h1 ?t2" "fresh ?h1 ?t3" "distinct [?t1, ?t2, ?t3]"
    by (simp_all add: fresh_def)
  let ?h' = "h2 @ ys" and ?r' = "snd (wrap_responses h2 r)"
  have c1: "parse_workflow_response h data = Inr (?h', VRef a, ?r')"
    using p w(1) by simp
  have c2: "?h' = (?h1[a := ODict ?X] @ [ODict [], ODict [], ODict []]) @ ys"
    by (simp only: h2_def)
  have c3: "as_dict ?h' (VRef a) = Some ?X"
    by (rule as_dict_append [OF fh(1)])
  have c4: "as_dict ?h' ?t1 = Some []" "as_dict ?h' ?t2 = Some []" "as_dict ?h' ?t3 = Some []"
    by (rule as_dict_append [OF fh(2)], rule as_dict_append [OF fh(3)],
        rule as_dict_append [OF fh(4)])
  show ?thesis
  proof (intro exI conjI)
    show "parse_workflow_response h data = Inr (?h', VRef a, ?r')" by (rule c1)
    show "?h' = (?h1[a := ODict ?X] @ [ODict [], ODict [], ODict []]) @ ys" by (rule c2)
    show "as_list ?h' ?r' \<noteq> None" by (rule w(2))
    show "as_list ?h1 r \<noteq> None \<longrightarrow> ?r' = r" by (rule keep)
    show "as_dict ?h' (VRef a) = Some ?X" by (rule c3)
    show "fresh ?h1 ?t1" "fresh ?h1 ?t2" "fresh ?h1 ?t3" "distinct [?t1, ?t2, ?t3]"
      by (rule fr)+
    show "as_dict ?h' ?t1 = Some []" "as_dict ?h' ?t2 = Some []" "as_dict ?h' ?t3 = Some []"
      by (rule c4)+
  qed
qed

text \<open>A payload that is neither an object nor a sequence, and an empty sequence, give a
  new empty mapping and a new empty sequence.\<close>

lemma extract_fields_scalar:
  "\<forall>a. data \<noteq> VRef a \<Longrightarrow>
   extract_fields h data = (h @ [ODict [], OList []], VRef (length h), VRef (length h + 1))"
  by (cases data) (simp_all add: extract_fields_def alloc_def as_dict_def as_list_def)

lemma extract_fields_empty:
  assumes "as_list h data = Some []"
  shows "extract_fields h data = (h @ [ODict [], OList []], VRef (length h), VRef (length h + 1))"
proof -
  have l: "as_list ((h @ [ODict []]) @ [OList []]) data = Some []"
    by (intro as_list_append assms)
  then have d: "as_dict ((h @ [ODict []]) @ [OList []]) data = None"
    by (rule list_not_dict)
  show ?thesis using l d by (simp add: extract_fields_def alloc_def)
qed

text \<open>
  Claim C1, as the code has it. The function first picks a summary value \<open>s\<close> and a
  responses value \<open>r\<close> from the payload (\<open>extract_fields\<close>). When \<open>s\<close> is no mapping,
  it is returned as it is, with no default filled, together with a sequence. When \<open>s\<close> is
  a mapping and \<open>r\<close> has a length \<open>n\<close>, the function returns that mapping and a sequence,
  and the mapping then holds what it held before, followed by the default of every summary
  field it did not hold: \<open>n\<close> for \<^verbatim>\<open>totalItems\<close>, \<open>0\<close> for the counts and percentages,
  \<open>0.0\<close> for \<^verbatim>\<open>avgScore\<close>, and three new empty mappings.
\<close>

theorem parse_fills_defaults:
  assumes "extract_fields h data = (h1, s, r)"
  shows "(as_dict h1 s = None \<longrightarrow>
            (\<exists>h' r'. parse_workflow_response h data = Inr (h', s, r') \<and> as_list h' r' \<noteq> None))
       \<and> (\<forall>kvs n. as_dict h1 s = Some kvs \<and> py_len h1 r = Inr n \<longrightarrow>
            (\<exists>h' r' t1 t2 t3.
                parse_workflow_response h data = Inr (h', s, r')
              \<and> as_list h' r' \<noteq> None
              \<and> as_dict h' s = Some (with_defaults kvs (summary_defaults n t1 t2 t3))
              \<and> fresh h t1 \<and> fresh h t2 \<and> fresh h t3 \<and> distinct [t1, t2, t3]
              \<and> as_dict h' t1 = Some [] \<and> as_dict h' t2 = Some [] \<and> as_dict h' t3 = Some []))"
proof (intro conjI impI allI)
  assume nd: "as_dict h1 s = None"
  from wrap_responses_grows [of h1 r] obtain ys where
    "fst (wrap_responses h1 r) = h1 @ ys" "as_list (h1 @ ys) (snd (wrap_responses h1 r)) \<noteq> None"
    by blast
  with parse_no_dict [OF assms nd]
  show "\<exists>h' r'. parse_workflow_response h data = Inr (h', s, r') \<and> as_list h' r' \<noteq> None"
    by auto
next
  fix kvs n
  assume a: "as_dict h1 s = Some kvs \<and> py_len h1 r = Inr n"
  from extract_fields_grows [of h data] assms obtain xs where h1: "h1 = h @ xs" by auto
  from as_dict_ref a obtain b where s: "s = VRef b" by blast
  from parse_filled [of h data xs b r kvs n] assms a h1 s
  obtain h' r' t1 t2 t3 where
    "parse_workflow_response h data = Inr (h', s, r')" "as_list h' r' \<noteq> None"
    "as_dict h' s = Some (with_defaults kvs (summary_defaults n t1 t2 t3))"
    "fresh (h @ xs) t1" "fresh (h @ xs) t2" "fresh (h @ xs) t3" "distinct [t1, t2, t3]"
    "as_dict h' t1 = Some []" "as_dict h' t2 = Some []" "as_dict h' t3 = Some []"
    by auto
  then show "\<exists>h' r' t1 t2 t3.
                parse_workflow_response h data = Inr (h', s, r')
              \<and> as_list h' r' \<noteq> None
              \<and> as_dict h' s = Some (with_defaults kvs (summary_defaults n t1 t2 t3))
              \<and> fresh h t1 \<and> fresh h t2 \<and> fresh h t3 \<and> distinct [t1, t2, t3]
              \<and> as_dict h' t1 = Some [] \<and> as_dict h' t2 = Some [] \<and> as_dict h' t3 = Some []"
    using fresh_grow by blast
qed

theorem parse_fills_defaults_witness:
  "extract_fields [OList []] (VRef 0) = ([OList [], ODict [], OList []], VRef 1, VRef 2)
   \<and> as_dict [OList [], ODict [], OList []] (VRef 1) = Some []
   \<and> py_len [OList [], ODict [], OList []] (VRef 2) = Inr 0
   \<and> parse_workflow_response [OList []] (VRef 0)
       = Inr ([OList [],
               ODict [(''totalItems'', VInt 0), (''positiveCount'', VInt 0),
                      (''neutralCount'', VInt 0), (''negativeCount'', VInt 0),
                      (''positivePercent'', VInt 0), (''neutralPercent'', VInt 0),
                      (''negativePercent'', VInt 0), (''avgScore'', VFloat 0),
                      (''topThemes'', VRef 3), (''topConcerns'', VRef 4),
                      (''sourceBreakdown'', VRef 5)],
               OList [], ODict [], ODict [], ODict []],
              VRef 1, VRef 2)"
proof -
  have ex: "extract_fields [OList []] (VRef 0) = ([OList [], ODict [], OList []], VRef 1, VRef 2)"
    by code_simp
  have d: "as_dict [OList [], ODict [], OList []] (VRef 1) = Some []"
    by code_simp
  have n: "py_len [OList [], ODict [], OList []] (VRef 2) = Inr 0"
    by code_simp
  have ev: "parse_workflow_response [OList []] (VRef 0)
       = Inr ([OList [],
               ODict [(''totalItems'', VInt 0), (''positiveCount'', VInt 0),
                      (''neutralCount'', VInt 0), (''negativeCount'', VInt 0),
                      (''positivePercent'', VInt 0), (''neutralPercent'', VInt 0),
                      (''negativePercent'', VInt 0), (''avgScore'', VFloat 0),
                      (''topThemes'', VRef 3), (''topConcerns'', VRef 4),
                      (''sourceBreakdown'', VRef 5)],
               OList [], ODict [], ODict [], ODict []],
              VRef 1, VRef 2)"
    by code_simp
  from parse_fills_defaults [OF ex] d n
  have "\<exists>h' r'. parse_workflow_response [OList []] (VRef 0) = Inr (h', VRef 1, r')"
    by blast
  with ex d n ev show ?thesis by simp
qed

text \<open>
  Claim C1 as stated fails. For the payload \<^verbatim>\<open>{"sentiment": 5}\<close> the summary returned is
  \<^verbatim>\<open>5\<close>, which holds no field. For the payload \<^verbatim>\<open>{"responses": [null]}\<close> the default of
  \<^verbatim>\<open>totalItems\<close> is \<^verbatim>\<open>1\<close>, not \<^verbatim>\<open>0\<close>.
\<close>

theorem parse_skips_defaults:
  "parse_workflow_response [ODict [(''sentiment'', VInt 5)]] (VRef 0)
     = Inr ([ODict [(''sentiment'', VInt 5)], ODict [], OList [], ODict [], OList []], VInt 5, VRef 4)
   \<and> parse_workflow_response [ODict [(''responses'', VRef 1)], OList [VNone]] (VRef 0)
     = Inr ([ODict [(''responses'', VRef 1)], OList [VNone], ODict [], OList [],
             ODict [(''totalItems'', VInt 1), (''positiveCount'', VInt 0),
                    (''neutralCount'', VInt 0), (''negativeCount'', VInt 0),
                    (''positivePercent'', VInt 0), (''neutralPercent'', VInt 0),
                    (''negativePercent'', VInt 0), (''avgScore'', VFloat 0),
                    (''topThemes'', VRef 6), (''topConcerns'', VRef 7),
                    (''sourceBreakdown'', VRef 8)],
             OList [], ODict [], ODict [], ODict []],
            VRef 4, VRef 1)"
  by code_simp

text \<open>With a number for \<^verbatim>\<open>responses\<close> the call of \<^verbatim>\<open>len\<close> raises.\<close>

lemma parse_raises_on_number:
  "parse_workflow_response [ODict [(''responses'', VInt 5)]] (VRef 0) = Inl TypeError"
  by code_simp

text \<open>
  Claim C2, as the code has it: for an object payload whose \<^verbatim>\<open>sentiment\<close> is a mapping
  \<open>S\<close> and whose \<^verbatim>\<open>responses\<close> is a list \<open>R\<close>, the summary returned is that mapping,
  which then holds \<open>S\<close> followed by the defaults of the fields \<open>S\<close> did not hold, the
  default of \<^verbatim>\<open>totalItems\<close> being the length of \<open>R\<close>; the records returned are the
  list \<open>R\<close>, unchanged.
\<close>

theorem parse_object_payload:
  assumes d: "as_dict h data = Some tkvs"
      and s: "map_of tkvs ''sentiment'' = Some s" and r: "map_of tkvs ''responses'' = Some r"
      and S: "as_dict h s = Some S" and R: "as_list h r = Some R"
  shows "\<exists>h' t1 t2 t3.
           parse_workflow_response h data = Inr (h', s, r)
         \<and> as_list h' r = Some R
         \<and> as_dict h' s = Some (with_defaults S (summary_defaults (int (length R)) t1 t2 t3))
         \<and> fresh h t1 \<and> fresh h t2 \<and> fresh h t3 \<and> distinct [t1, t2, t3]
         \<and> as_dict h' t1 = Some [] \<and> as_dict h' t2 = Some [] \<and> as_dict h' t3 = Some []"
proof -
  let ?xs = "[ODict [], OList [], ODict [], OList []]"
  from as_dict_ref [OF S] obtain a where a: "s = VRef a" by blast
  have ex: "extract_fields h data = (h @ ?xs, VRef a, r)"
    using extract_fields_dict [OF d] s r a by (simp add: val_get_present)
  have S1: "as_dict (h @ ?xs) (VRef a) = Some S"
    using S a as_dict_append by blast
  have R1: "as_list (h @ ?xs) r = Some R" by (rule as_list_append [OF R])
  have n: "py_len (h @ ?xs) r = Inr (int (length R))" by (rule py_len_list [OF R1])
  from parse_filled [OF ex S1 n] obtain h' r' t1 t2 t3 ys where p:
    "parse_workflow_response h data = Inr (h', VRef a, r')"
    "h' = ((h @ ?xs)[a := ODict (with_defaults S (summary_defaults (int (length R)) t1 t2 t3))]
                  @ [ODict [], ODict [], ODict []]) @ ys"
    "as_list (h @ ?xs) r \<noteq> None \<longrightarrow> r' = r"
    "as_dict h' (VRef a) = Some (with_defaults S (summary_defaults (int (length R)) t1 t2 t3))"
    "fresh (h @ ?xs) t1" "fresh (h @ ?xs) t2" "fresh (h @ ?xs) t3" "distinct [t1, t2, t3]"
    "as_dict h' t1 = Some []" "as_dict h' t2 = Some []" "as_dict h' t3 = Some []"
    by blast
  from p(3) R1 have r': "r' = r" by simp
  from as_list_ref [OF R1] obtain b where b: "r = VRef b" "b < length (h @ ?xs)" "(h @ ?xs) ! b = OList R"
    by auto
  from as_dict_ref [OF S1] have "(h @ ?xs) ! a = ODict S" by auto
  with b have "b \<noteq> a" by auto
  with b p(2) have "as_list h' r = Some R"
    by (simp add: as_list_def nth_append)
  with p r' a fresh_grow show ?thesis by blast
qed

theorem parse_object_payload_witness:
  "as_dict [ODict [(''sentiment'', VRef 1), (''responses'', VRef 2)],
            ODict [(''positiveCount'', VInt 3)], OList [VRef 3],
            ODict [(''headline'', VStr ''Great glasses'')]] (VRef 0)
     = Some [(''sentiment'', VRef 1), (''responses'', VRef 2)]
   \<and> parse_workflow_response
        [ODict [(''sentiment'', VRef 1), (''responses'', VRef 2)],
         ODict [(''positiveCount'', VInt 3)], OList [VRef 3],
         ODict [(''headline'', VStr ''Great glasses'')]] (VRef 0)
     = Inr ([ODict [(''sentiment'', VRef 1), (''responses'', VRef 2)],
             ODict [(''positiveCount'', VInt 3), (''totalItems'', VInt 1),
                    (''neutralCount'', VInt 0), (''negativeCount'', VInt 0),
                    (''positivePercent'', VInt 0), (''neutralPercent'', VInt 0),
                    (''negativePercent'', VInt 0), (''avgScore'', VFloat 0),
                    (''topThemes'', VRef 8), (''topConcerns'', VRef 9),
                    (''sourceBreakdown'', VRef 10)],
             OList [VRef 3], ODict [(''headline'', VStr ''Great glasses'')],
             ODict [], OList [], ODict [], OList [], ODict [], ODict [], ODict []],
            VRef 1, VRef 2)"
proof -
  let ?h = "[ODict [(''sentiment'', VRef 1), (''responses'', VRef 2)],
            ODict [(''positiveCount'', VInt 3)], OList [VRef 3],
            ODict [(''headline'', VStr ''Great glasses'')]]"
  let ?t = "[(''sentiment'', VRef 1), (''responses'', VRef 2)]"
  have d: "as_dict ?h (VRef 0) = Some ?t" by code_simp
  have s: "map_of ?t ''sentiment'' = Some (VRef 1)" by simp
  have r: "map_of ?t ''responses'' = Some (VRef 2)" by simp
  have S: "as_dict ?h (VRef 1) = Some [(''positiveCount'', VInt 3)]" by code_simp
  have R: "as_list ?h (VRef 2) = Some [VRef 3]" by code_simp
  have ev: "parse_workflow_response ?h (VRef 0)
     = Inr ([ODict [(''sentiment'', VRef 1), (''responses'', VRef 2)],
             ODict [(''positiveCount'', VInt 3), (''totalItems'', VInt 1),
                    (''neutralCount'', VInt 0), (''negativeCount'', VInt 0),
                    (''positivePercent'', VInt 0), (''neutralPercent'', VInt 0),
                    (''negativePercent'', VInt 0), (''avgScore'', VFloat 0),
                    (''topThemes'', VRef 8), (''topConcerns'', VRef 9),
                    (''sourceBreakdown'', VRef 10)],
             OList [VRef 3], ODict [(''headline'', VStr ''Great glasses'')],
             ODict [], OList [], ODict [], OList [], ODict [], ODict [], ODict []],
            VRef 1, VRef 2)"
    by code_simp
  from parse_object_payload [OF d s r S R]
  have "\<exists>h'. parse_workflow_response ?h (VRef 0) = Inr (h', VRef 1, VRef 2)" by blast
  with d ev show ?thesis by simp
qed

text \<open>
  Claim C2 as stated fails: for \<^verbatim>\<open>{"sentiment": {}, "responses": [1]}\<close> the records
  returned are \<^verbatim>\<open>[1]\<close>, the entry that is no record included, and \<^verbatim>\<open>totalItems\<close> is
  \<^verbatim>\<open>1\<close>.
\<close>

theorem parse_keeps_non_records:
  "parse_workflow_response
     [ODict [(''sentiment'', VRef 1), (''responses'', VRef 2)], ODict [], OList [VInt 1]] (VRef 0)
   = Inr ([ODict [(''sentiment'', VRef 1), (''responses'', VRef 2)],
           ODict [(''totalItems'', VInt 1), (''positiveCount'', VInt 0),
                  (''neutralCount'', VInt 0), (''negativeCount'', VInt 0),
                  (''positivePercent'', VInt 0), (''neutralPercent'', VInt 0),
                  (''negativePercent'', VInt 0), (''avgScore'', VFloat 0),
                  (''topThemes'', VRef 7), (''topConcerns'', VRef 8),
                  (''sourceBreakdown'', VRef 9)],
           OList [VInt 1], ODict [], OList [], ODict [], OList [], ODict [], ODict [], ODict []],
          VRef 1, VRef 2)"
  by code_simp

text \<open>
  Claim C9, as the code has it: a call that returns leaves every object of the store as it
  was, except the mapping it returns as the summary, to which it adds the defaults of the
  fields that were missing; all it does besides is to add new objects.
\<close>

theorem parse_frame:
  assumes "parse_workflow_response h data = Inr (h', s, r)"
  shows "length h \<le> length h'
       \<and> (\<forall>a<length h. h' ! a = h ! a
             \<or> (s = VRef a \<and> (\<exists>kvs n t1 t2 t3. h ! a = ODict kvs
                   \<and> h' ! a = ODict (with_defaults kvs (summary_defaults n t1 t2 t3)))))"
proof -
  obtain h1 s1 r1 where ex: "extract_fields h data = (h1, s1, r1)"
    by (cases "extract_fields h data") auto
  from extract_fields_grows [of h data] ex obtain xs where h1: "h1 = h @ xs" by auto
  show ?thesis
  proof (cases "as_dict h1 s1")
    case None
    from wrap_responses_grows [of h1 r1] obtain ys where
      "fst (wrap_responses h1 r1) = h1 @ ys" by blast
    with parse_no_dict [OF ex None] assms h1 have "h' = h @ xs @ ys" by simp
    then show ?thesis by (simp add: nth_append)
  next
    case (Some kvs)
    from as_dict_ref [OF Some] obtain b where b: "s1 = VRef b" "b < length h1" "h1 ! b = ODict kvs"
      by blast
    show ?thesis
    proof (cases "py_len h1 r1")
      case (Inl e)
      from parse_raises [OF ex Some Inl] assms show ?thesis by simp
    next
      case (Inr n)
      from parse_filled [of h data xs b r1 kvs n] ex Some Inr h1 b(1)
      obtain r' t1 t2 t3 ys h2 where p:
        "parse_workflow_response h data = Inr (h2, VRef b, r')"
        "h2 = ((h @ xs)[b := ODict (with_defaults kvs (summary_defaults n t1 t2 t3))]
                  @ [ODict [], ODict [], ODict []]) @ ys"
        by auto
      with assms have e: "h' = h2" "s = VRef b" by simp_all
      have len: "length h \<le> length h'" using e p(2) by simp
      have "\<forall>a<length h. h' ! a = h ! a
             \<or> (s = VRef a \<and> (\<exists>kvs n t1 t2 t3. h ! a = ODict kvs
                   \<and> h' ! a = ODict (with_defaults kvs (summary_defaults n t1 t2 t3))))"
      proof (intro allI impI)
        fix a assume a: "a < length h"
        show "h' ! a = h ! a
             \<or> (s = VRef a \<and> (\<exists>kvs n t1 t2 t3. h ! a = ODict kvs
                   \<and> h' ! a = ODict (with_defaults kvs (summary_defaults n t1 t2 t3))))"
        proof (cases "a = b")
          case True
          with a b(3) h1 have "h ! a = ODict kvs" by (simp add: nth_append)
          moreover from True a e p(2)
          have "h' ! a = ODict (with_defaults kvs (summary_defaults n t1 t2 t3))"
            by (simp add: nth_append)
          ultimately show ?thesis using True e(2) by blast
        next
          case False
          with a e p(2) have "h' ! a = h ! a" by (simp add: nth_append)
          then show ?thesis by simp
        qed
      qed
      with len show ?thesis by simp
    qed
  qed
qed

theorem parse_frame_witness:
  "parse_workflow_response
     [ODict [(''responses'', VRef 1), (''sentiment'', VRef 2)], OList [],
      ODict [(''totalItems'', VInt 7)]] (VRef 0)
   = Inr ([ODict [(''responses'', VRef 1), (''sentiment'', VRef 2)], OList [],
           ODict [(''totalItems'', VInt 7), (''positiveCount'', VInt 0),
                  (''neutralCount'', VInt 0), (''negativeCount'', VInt 0),
                  (''positivePercent'', VInt 0), (''neutralPercent'', VInt 0),
                  (''negativePercent'', VInt 0), (''avgScore'', VFloat 0),
                  (''topThemes'', VRef 7), (''topConcerns'', VRef 8),
                  (''sourceBreakdown'', VRef 9)],
           ODict [], OList [], ODict [], OList [], ODict [], ODict [], ODict []],
          VRef 2, VRef 1)
   \<and> [ODict [(''responses'', VRef 1), (''sentiment'', VRef 2)], OList [],
           ODict [(''totalItems'', VInt 7), (''positiveCount'', VInt 0),
                  (''neutralCount'', VInt 0), (''negativeCount'', VInt 0),
                  (''positivePercent'', VInt 0), (''neutralPercent'', VInt 0),
                  (''negativePercent'', VInt 0), (''avgScore'', VFloat 0),
                  (''topThemes'', VRef 7), (''topConcerns'', VRef 8),
                  (''sourceBreakdown'', VRef 9)],
           ODict [], OList [], ODict [], OList [], ODict [], ODict [], ODict []] ! 0
     = [ODict [(''responses'', VRef 1), (''sentiment'', VRef 2)], OList [],
        ODict [(''totalItems'', VInt 7)]] ! 0"
proof -
  let ?h = "[ODict [(''responses'', VRef 1), (''sentiment'', VRef 2)], OList [],
      ODict [(''totalItems'', VInt 7)]]"
  let ?h' = "[ODict [(''responses'', VRef 1), (''sentiment'', VRef 2)], OList [],
           ODict [(''totalItems'', VInt 7), (''positiveCount'', VInt 0),
                  (''neutralCount'', VInt 0), (''negativeCount'', VInt 0),
                  (''positivePercent'', VInt 0), (''neutralPercent'', VInt 0),
                  (''negativePercent'', VInt 0), (''avgScore'', VFloat 0),
                  (''topThemes'', VRef 7), (''topConcerns'', VRef 8),
                  (''sourceBreakdown'', VRef 9)],
           ODict [], OList [], ODict [], OList [], ODict [], ODict [], ODict []]"
  have ev: "parse_workflow_response ?h (VRef 0) = Inr (?h', VRef 2, VRef 1)"
    by code_simp
  from parse_frame [OF ev] have "?h' ! 0 = ?h ! 0 \<or> VRef 2 = VRef (0::nat)"
    by auto
  then have "?h' ! 0 = ?h ! 0" by simp
  with ev show ?thesis by simp
qed

text \<open>
  Claim C9 as stated fails: for the payload \<^verbatim>\<open>{"sentiment": {"avgScore": 1}}\<close> the nested
  mapping, object 1 of the store, holds one entry before the call and eleven after it.
\<close>

theorem parse_modifies_input:
  "parse_workflow_response [ODict [(''sentiment'', VRef 1)], ODict [(''avgScore'', VInt 1)]] (VRef 0)
   = Inr ([ODict [(''sentiment'', VRef 1)],
           ODict [(''avgScore'', VInt 1), (''totalItems'', VInt 0),
                  (''positiveCount'', VInt 0), (''neutralCount'', VInt 0),
                  (''negativeCount'', VInt 0), (''positivePercent'', VInt 0),
                  (''neutralPercent'', VInt 0), (''negativePercent'', VInt 0),
                  (''topThemes'', VRef 6), (''topConcerns'', VRef 7),
                  (''sourceBreakdown'', VRef 8)],
           ODict [], OList [], ODict [], OList [], ODict [], ODict [], ODict []],
          VRef 1, VRef 5)"
  by code_simp

text \<open>
  Claim C10, as the code has it: for a sequence whose first element is an object with
  neither a \<^verbatim>\<open>sentiment\<close> nor a \<^verbatim>\<open>responses\<close> key and with a \<^verbatim>\<open>headline\<close> or a
  \<^verbatim>\<open>personalized_response\<close>, the summary returned is that very object, the records
  returned are a new list whose only element is that same object, and the object then holds
  what it held before, followed by the defaults of the summary fields it did not hold, the
  default of \<^verbatim>\<open>totalItems\<close> being 1.
\<close>

theorem parse_single_review:
  assumes l: "as_list h data = Some (first # rest)"
      and f: "as_dict h first = Some kvs"
      and ns: "\<not> has_key kvs ''sentiment''" and nr: "\<not> has_key kvs ''responses''"
      and rv: "has_key kvs ''headline'' \<or> has_key kvs ''personalized_response''"
  shows "\<exists>h' r t1 t2 t3.
           parse_workflow_response h data = Inr (h', first, r)
         \<and> as_list h' r = Some [first] \<and> fresh h r
         \<and> as_dict h' first = Some (with_defaults kvs (summary_defaults 1 t1 t2 t3))
         \<and> fresh h t1 \<and> fresh h t2 \<and> fresh h t3 \<and> distinct [t1, t2, t3]
         \<and> as_dict h' t1 = Some [] \<and> as_dict h' t2 = Some [] \<and> as_dict h' t3 = Some []"
proof -
  let ?xs = "[ODict [], OList [], OList [first]]"
  let ?r = "VRef (length h + 2)"
  from as_dict_ref [OF f] obtain a where a: "first = VRef a" "a < length h" by blast
  have ex: "extract_fields h data = (h @ ?xs, VRef a, ?r)"
    using extract_fields_first [OF l f] ns nr rv a by (simp add: val_get_absent)
  have f1: "as_dict (h @ ?xs) (VRef a) = Some kvs"
    using f a as_dict_append by blast
  have R1: "as_list (h @ ?xs) ?r = Some [first]"
    by (simp add: as_list_def nth_append)
  have n: "py_len (h @ ?xs) ?r = Inr 1"
    using py_len_list [OF R1] by simp
  from parse_filled [OF ex f1 n] obtain h' r' t1 t2 t3 ys where p:
    "parse_workflow_response h data = Inr (h', VRef a, r')"
    "h' = ((h @ ?xs)[a := ODict (with_defaults kvs (summary_defaults 1 t1 t2 t3))]
                  @ [ODict [], ODict [], ODict []]) @ ys"
    "as_list (h @ ?xs) ?r \<noteq> None \<longrightarrow> r' = ?r"
    "as_dict h' (VRef a) = Some (with_defaults kvs (summary_defaults 1 t1 t2 t3))"
    "fresh (h @ ?xs) t1" "fresh (h @ ?xs) t2" "fresh (h @ ?xs) t3" "distinct [t1, t2, t3]"
    "as_dict h' t1 = Some []" "as_dict h' t2 = Some []" "as_dict h' t3 = Some []"
    by blast
  from p(3) R1 have r': "r' = ?r" by simp
  have "as_list h' ?r = Some [first]"
    using p(2) a(2) by (simp add: as_list_def nth_append)
  moreover have "fresh h ?r" by (simp add: fresh_def)
  ultimately show ?thesis using p r' a(1) fresh_grow by blast
qed

theorem parse_single_review_witness:
  "as_list [OList [VRef 1], ODict [(''personalized_response'', VStr ''Thanks'')]] (VRef 0)
     = Some [VRef 1]
   \<and> as_dict [OList [VRef 1], ODict [(''personalized_response'', VStr ''Thanks'')]] (VRef 1)
     = Some [(''personalized_response'', VStr ''Thanks'')]
   \<and> parse_workflow_response
        [OList [VRef 1], ODict [(''personalized_response'', VStr ''Thanks'')]] (VRef 0)
     = Inr ([OList [VRef 1],
             ODict [(''personalized_response'', VStr ''Thanks''),
                    (''totalItems'', VInt 1), (''positiveCount'', VInt 0),
                    (''neutralCount'', VInt 0), (''negativeCount'', VInt 0),
                    (''positivePercent'', VInt 0), (''neutralPercent'', VInt 0),
                    (''negativePercent'', VInt 0), (''avgScore'', VFloat 0),
                    (''topThemes'', VRef 5), (''topConcerns'', VRef 6),
                    (''sourceBreakdown'', VRef 7)],
             ODict [], OList [], OList [VRef 1], ODict [], ODict [], ODict []],
            VRef 1, VRef 4)"
proof -
  let ?h = "[OList [VRef 1], ODict [(''personalized_response'', VStr ''Thanks'')]]"
  let ?kvs = "[(''personalized_response'', VStr ''Thanks'')]"
  have l: "as_list ?h (VRef 0) = Some (VRef 1 # [])" by code_simp
  have f: "as_dict ?h (VRef 1) = Some ?kvs" by code_simp
  have ns: "\<not> has_key ?kvs ''sentiment''" by (simp add: has_key_def)
  have nr: "\<not> has_key ?kvs ''responses''" by (simp add: has_key_def)
  have rv: "has_key ?kvs ''headline'' \<or> has_key ?kvs ''personalized_response''"
    by (simp add: has_key_def)
  have ev: "parse_workflow_response ?h (VRef 0)
     = Inr ([OList [VRef 1],
             ODict [(''personalized_response'', VStr ''Thanks''),
                    (''totalItems'', VInt 1), (''positiveCount'', VInt 0),
                    (''neutralCount'', VInt 0), (''negativeCount'', VInt 0),
                    (''positivePercent'', VInt 0), (''neutralPercent'', VInt 0),
                    (''negativePercent'', VInt 0), (''avgScore'', VFloat 0),
                    (''topThemes'', VRef 5), (''topConcerns'', VRef 6),
                    (''sourceBreakdown'', VRef 7)],
             ODict [], OList [], OList [VRef 1], ODict [], ODict [], ODict []],
            VRef 1, VRef 4)"
    by code_simp
  from parse_single_review [OF l f ns nr rv]
  have "\<exists>h' r. parse_workflow_response ?h (VRef 0) = Inr (h', VRef 1, r)" by blast
  with l f ev show ?thesis by simp
qed

text \<open>
  Claim C10 as stated fails: for \<^verbatim>\<open>[{"headline": "h", "responses": []}]\<close> the records
  returned are the object's own empty \<^verbatim>\<open>responses\<close> list, not a list holding the object,
  and \<^verbatim>\<open>totalItems\<close> is \<^verbatim>\<open>0\<close>.
\<close>

theorem parse_review_with_responses:
  "parse_workflow_response
     [OList [VRef 1], ODict [(''headline'', VStr ''h''), (''responses'', VRef 2)], OList []] (VRef 0)
   = Inr ([OList [VRef 1],
           ODict [(''headline'', VStr ''h''), (''responses'', VRef 2),
                  (''totalItems'', VInt 0), (''positiveCount'', VInt 0),
                  (''neutralCount'', VInt 0), (''negativeCount'', VInt 0),
                  (''positivePercent'', VInt 0), (''neutralPercent'', VInt 0),
                  (''negativePercent'', VInt 0), (''avgScore'', VFloat 0),
                  (''topThemes'', VRef 6), (''topConcerns'', VRef 7),
                  (''sourceBreakdown'', VRef 8)],
           OList [], ODict [], OList [], OList [VRef 1], ODict [], ODict [], ODict []],
          VRef 1, VRef 2)"
  by code_simp

end
